theory Spec2Isabelle
  imports Main "HOL-Library.Word" "HOL-Library.Sublist"
begin

section \<open>The server process supervisor of \<^verbatim>\<open>server_process.go\<close>\<close>

text \<open>
  A shallow embedding of \<^verbatim>\<open>AssettoServerProcess\<close> and its \<^verbatim>\<open>logBuffer\<close>.
  Struct fields are record fields under their Go names. A Go pointer or interface
  that may be nil is an \<open>option\<close>. A Go \<^verbatim>\<open>error\<close> result is an \<open>error option\<close>
  (\<open>None\<close> is nil). A run-time panic is the left injection of a sum, so a function
  that can panic returns \<open>fault + result\<close>.

  The collaborators that live in other files (the store, the UDP package, the
  operating system, the static configuration) are the fields of the record \<open>env\<close>:
  each field gives the outcome of one external call, and every theorem below
  holds for every such environment unless it names a condition on it.

  Everything the supervisor does to the world outside its own struct (log lines,
  processes spawned and killed, channel sends, relay traffic) is appended to the
  \<open>trace\<close>, so that "was the process spawned" or "was a waiter signalled" is a
  statement about the trace.
\<close>

subsection \<open>Values\<close>

type_synonym byte = "8 word"

datatype fault =
    NilPointerDereference
  | SliceBoundsOutOfRange
  | IndexOutOfRange
  | SendOnClosedChannel

text \<open>
  The two sentinel errors of the file, the sentinel the sTracker branch logs, and
  \<open>External msg\<close> for an error value produced by a collaborator.
\<close>

datatype error =
    ErrServerProcessTimeout
  | ErrNoOpenUDPConnection
  | ErrStrackerConfigurationRequiresUDPPluginConfiguration
  | External string

text \<open>\<^verbatim>\<open>RaceEvent\<close> is an interface: an opaque value, or nil.\<close>

type_synonym RaceEvent = "nat option"

type_synonym Message = nat

text \<open>
  The log lines of the file, one constructor per call of \<^verbatim>\<open>logrus\<close>, named by its
  level and its message. The error a line carries (\<^verbatim>\<open>WithError\<close>) is kept with it
  in the trace. Of the other format arguments one is kept: the event that the
  first line of \<^verbatim>\<open>startRaceEvent\<close> describes.
\<close>

datatype logline =
    Debug_ManualKill
  | Error_CouldNotForciblyKill
  | Warn_ProcessEndedWithError
  | Info_StartingServerProcess RaceEvent
  | Error_CouldNotStartWrapper
  | Info_StartedStracker
  | Error_CheckServerConfiguration
  | Error_CouldNotRunExtraCommand
  | Warn_RunOnStartDeprecated
  | Debug_ServerStopped
  | Warn_NoPluginDirectory
  | Error_CannotKillProcess

datatype Context = Background | WithCancel nat

datatype sink = NoSink | LogBufferSink | PluginsOutput

record Cmd =
  Path :: string
  Args :: "string list"
  Dir :: string
  Stdout :: sink
  Stderr :: sink
  Process :: "nat option"
  CmdContext :: Context

record CommandPlugin =
  Executable :: string
  Arguments :: "string list"

record ServerOptions =
  EnableContentManagerWrapper :: int
  ContentManagerWrapperPort :: int
  UDPPluginLocalPort :: int
  UDPPluginAddress :: string

record StrackerOptions =
  EnableStracker :: bool
  ACPlugin_SendPort :: int
  ACPlugin_ReceivePort :: int
  InstanceConfiguration_ListeningPort :: int

record AssettoServerUDP =
  conn_host :: string
  conn_port :: int
  conn_localPort :: int
  conn_forward :: bool
  conn_forwardingAddress :: string
  conn_forwardListenPort :: int
  conn_closed :: bool

text \<open>
  A Go channel of \<^verbatim>\<open>struct{}\<close>, as a done-waiter owns it: its capacity, the
  number of buffered items, the number of receivers blocked on it, and whether it
  was closed.
\<close>

record chan =
  ch_cap :: nat
  ch_len :: nat
  ch_recvq :: nat
  ch_closed :: bool

datatype event =
    Logged logline "error option"
  | ContextCancel Context
  | GoCmdRun Cmd
  | GoWrapperStart int
  | CmdStart Cmd nat
  | Kill "nat option"
  | Release nat
  | WrapperStop
  | StrackerWrite StrackerOptions
  | UDPOpen AssettoServerUDP
  | UDPClose AssettoServerUDP
  | UDPSend AssettoServerUDP Message
  | ChanSend nat

subsection \<open>The log buffer\<close>

text \<open>
  \<^verbatim>\<open>logBuffer\<close>: the contents of its \<^verbatim>\<open>bytes.Buffer\<close> (nothing ever reads from
  it, so the unread part is everything it holds) and the cap \<^verbatim>\<open>size\<close>, a Go
  \<^verbatim>\<open>int\<close>.
\<close>

record logBuffer =
  buf :: "byte list"
  size_lb :: int

definition MaxLogSizeBytes :: int where
  "MaxLogSizeBytes = 1000000"

definition newLogBuffer :: "int \<Rightarrow> logBuffer" where
  "newLogBuffer maxSize = \<lparr>buf = [], size_lb = maxSize\<rparr>"

text \<open>
  \<^verbatim>\<open>Write\<close>: when the old contents are longer than the cap they are cut to
  their last \<^verbatim>\<open>size\<close> bytes (the slice expression \<^verbatim>\<open>b[len(b)-lb.size:]\<close>, which
  panics when the cap is negative); then \<^verbatim>\<open>p\<close> is appended whole. The result is
  the new buffer and the \<^verbatim>\<open>n\<close> of \<^verbatim>\<open>bytes.Buffer.Write\<close>, whose error is always
  nil.
\<close>

definition Write :: "logBuffer \<Rightarrow> byte list \<Rightarrow> fault + (logBuffer \<times> int)" where
  "Write lb p =
     (let b = buf lb in
      if int (length b) > size_lb lb
      then (if size_lb lb < 0 then Inl SliceBoundsOutOfRange
            else Inr (lb\<lparr>buf := drop (length b - nat (size_lb lb)) b @ p\<rparr>, int (length p)))
      else Inr (lb\<lparr>buf := b @ p\<rparr>, int (length p)))"

definition String :: "logBuffer \<Rightarrow> byte list" where
  "String lb = buf lb"

text \<open>A sequence of \<^verbatim>\<open>Write\<close> calls, as the two output streams of the process make them.\<close>

fun writes :: "logBuffer \<Rightarrow> byte list list \<Rightarrow> fault + logBuffer" where
  "writes lb [] = Inr lb"
| "writes lb (p # ps) =
     (case Write lb p of
        Inl f \<Rightarrow> Inl f
      | Inr (lb', n) \<Rightarrow> writes lb' ps)"

subsection \<open>The environment\<close>

text \<open>
  The outcome of every call that leaves the file. An error is the message of the
  error value; the model wraps it in \<open>External\<close>. \<open>cmd_Start\<close> is the outcome of
  \<^verbatim>\<open>exec.Cmd.Start\<close> on a command (an error, or the process id); \<open>kill\<close> is the
  package's \<^verbatim>\<open>kill\<close> helper on a process handle that may be nil.
\<close>

record env =
  config_Steam_ExecutablePath :: string
  ServerInstallPath :: string
  config_Server_Plugins :: "CommandPlugin list"
  config_Server_RunOnStart :: "string list"
  filepath_IsAbs :: "string \<Rightarrow> bool"
  filepath_Join :: "string \<Rightarrow> string \<Rightarrow> string"
  filepath_Abs :: "string \<Rightarrow> string + string"
  filepath_Dir :: "string \<Rightarrow> string"
  net_SplitHostPort :: "string \<Rightarrow> string + string \<times> string"
  strconv_ParseInt :: "string \<Rightarrow> string + int"
  os_Getwd :: "string + string"
  udp_NewServerClient :: "string \<Rightarrow> int \<Rightarrow> int \<Rightarrow> bool \<Rightarrow> string \<Rightarrow> int \<Rightarrow> string option"
  udp_Close_result :: "AssettoServerUDP \<Rightarrow> string option"
  udp_SendMessage :: "AssettoServerUDP \<Rightarrow> Message \<Rightarrow> string option"
  store_LoadServerOptions :: "string + ServerOptions"
  store_LoadStrackerOptions :: "string + StrackerOptions"
  IsStrackerInstalled :: bool
  strackerOptions_Write :: "StrackerOptions \<Rightarrow> string option"
  formValueAsInt :: "string \<Rightarrow> int"
  StrackerExecutablePath :: string
  StrackerFolderPath :: string
  strackerConfigIniFilename :: string
  cmd_Start :: "Cmd \<Rightarrow> string + nat"
  kill :: "nat option \<Rightarrow> string option"
  contentManagerWrapper_Start :: "int \<Rightarrow> RaceEvent \<Rightarrow> string option"

subsection \<open>The supervisor's state\<close>

text \<open>
  The fields of \<^verbatim>\<open>AssettoServerProcess\<close> that hold data. \<^verbatim>\<open>ctx\<close> and \<^verbatim>\<open>cfn\<close> are
  nil until the first launch; \<^verbatim>\<open>cfn\<close> holds the context its call cancels. The
  request and reply channels of the control loop are not fields here: a call that
  hands a request to the loop and waits for the reply is the loop's branch applied
  to the state.
\<close>

record AssettoServerProcess =
  notifyDoneChs :: "nat option list"
  ctx :: "Context option"
  cfn :: "Context option"
  logBuffer :: logBuffer
  raceEvent :: RaceEvent
  cmd :: "Cmd option"
  extraProcesses :: "Cmd list"
  udpServerConn :: "AssettoServerUDP option"
  udpPluginAddress :: string
  udpPluginLocalPort :: int
  forwardingAddress :: string
  forwardListenPort :: int

text \<open>
  The supervisor together with what it acts on: the channels the done-waiters
  own (by number), the number of contexts created so far (the next fresh one), and
  the trace of effects.
\<close>

record system = AssettoServerProcess +
  chans :: "nat \<Rightarrow> chan"
  contexts :: nat
  trace :: "event list"

definition emit :: "event \<Rightarrow> system \<Rightarrow> system" where
  "emit e s = s\<lparr>trace := trace s @ [e]\<rparr>"

definition logf :: "logline \<Rightarrow> error option \<Rightarrow> system \<Rightarrow> system" where
  "logf l e s = emit (Logged l e) s"

definition NewAssettoServerProcess :: "(nat \<Rightarrow> chan) \<Rightarrow> system" where
  "NewAssettoServerProcess chs =
     \<lparr>notifyDoneChs = [], ctx = None, cfn = None,
      logBuffer = newLogBuffer MaxLogSizeBytes,
      raceEvent = None, cmd = None, extraProcesses = [], udpServerConn = None,
      udpPluginAddress = [], udpPluginLocalPort = 0,
      forwardingAddress = [], forwardListenPort = 0,
      chans = chs, contexts = 0, trace = []\<rparr>"

definition IsRunning :: "system \<Rightarrow> bool" where
  "IsRunning s = (raceEvent s \<noteq> None)"

definition Event :: "system \<Rightarrow> RaceEvent" where
  "Event s = raceEvent s"

definition Logs :: "system \<Rightarrow> byte list" where
  "Logs s = String (logBuffer s)"

definition NotifyDone :: "system \<Rightarrow> nat option \<Rightarrow> system" where
  "NotifyDone s ch = s\<lparr>notifyDoneChs := notifyDoneChs s @ [ch]\<rparr>"

subsection \<open>The UDP relay\<close>

text \<open>
  \<^verbatim>\<open>startUDPListener\<close>. \<^verbatim>\<open>udp.NewServerClient\<close> returns the handle and an error;
  the model takes the handle to be nil when the error is not.
\<close>

definition startUDPListener :: "env \<Rightarrow> system \<Rightarrow> error option \<times> system" where
  "startUDPListener env s =
     (case net_SplitHostPort env (udpPluginAddress s) of
        Inl e \<Rightarrow> (Some (External e), s)
      | Inr (host, portStr) \<Rightarrow>
          (case strconv_ParseInt env portStr of
             Inl e \<Rightarrow> (Some (External e), s)
           | Inr port \<Rightarrow>
               (case udp_NewServerClient env host port (udpPluginLocalPort s) True
                       (forwardingAddress s) (forwardListenPort s) of
                  Some e \<Rightarrow> (Some (External e), s\<lparr>udpServerConn := None\<rparr>)
                | None \<Rightarrow>
                    (let conn = \<lparr>conn_host = host, conn_port = port,
                                 conn_localPort = udpPluginLocalPort s, conn_forward = True,
                                 conn_forwardingAddress = forwardingAddress s,
                                 conn_forwardListenPort = forwardListenPort s,
                                 conn_closed = False\<rparr>
                     in (None, emit (UDPOpen conn) (s\<lparr>udpServerConn := Some conn\<rparr>))))))"

text \<open>
  Modelled from the spec: the \<^verbatim>\<open>Close\<close> method of the UDP package's
  \<^verbatim>\<open>AssettoServerUDP\<close> is not in this file. The spec's words: "releases the bound
  connection; idempotent-safe close is a documented requirement since teardown may
  be invoked when the relay was never successfully opened (implementers must
  null-check rather than fault)". So a nil receiver returns nil without a fault,
  and a handle is marked closed and returns what the environment's close returns.
\<close>

definition udp_Close ::
  "env \<Rightarrow> AssettoServerUDP option \<Rightarrow> fault + (error option \<times> AssettoServerUDP option)" where
  "udp_Close env conn =
     (case conn of
        None \<Rightarrow> Inr (None, None)
      | Some c \<Rightarrow> Inr (map_option External (udp_Close_result env c), Some (c\<lparr>conn_closed := True\<rparr>)))"

text \<open>\<^verbatim>\<open>stopUDPListener\<close>: the method call on the field, whatever it holds.\<close>

definition stopUDPListener :: "env \<Rightarrow> system \<Rightarrow> fault + (error option \<times> system)" where
  "stopUDPListener env s =
     (case udp_Close env (udpServerConn s) of
        Inl f \<Rightarrow> Inl f
      | Inr (err, conn') \<Rightarrow>
          Inr (err, (case udpServerConn s of
                       None \<Rightarrow> s
                     | Some c \<Rightarrow> emit (UDPClose c) (s\<lparr>udpServerConn := conn'\<rparr>))))"

definition SendUDPMessage :: "env \<Rightarrow> system \<Rightarrow> Message \<Rightarrow> error option \<times> system" where
  "SendUDPMessage env s message =
     (case udpServerConn s of
        None \<Rightarrow> (Some ErrNoOpenUDPConnection, s)
      | Some c \<Rightarrow> (map_option External (udp_SendMessage env c message), emit (UDPSend c message) s))"

subsection \<open>Child processes\<close>

text \<open>
  Modelled from the spec: \<^verbatim>\<open>buildCommand\<close> is in another file of the package
  ("construct-command-with-context"): a command for the executable and its
  arguments, bound to the context, not started.
\<close>

definition buildCommand :: "Context \<Rightarrow> string \<Rightarrow> string list \<Rightarrow> Cmd" where
  "buildCommand c name arg =
     \<lparr>Path = name, Args = arg, Dir = [], Stdout = NoSink, Stderr = NoSink,
      Process = None, CmdContext = c\<rparr>"

text \<open>
  The tail of \<^verbatim>\<open>startPlugin\<close> and of \<^verbatim>\<open>startChildProcess\<close>, which is the same
  text in both: the working directory, the output sinks, \<^verbatim>\<open>cmd.Start()\<close> and the
  append to \<^verbatim>\<open>extraProcesses\<close>.
\<close>

definition startCommand ::
  "env \<Rightarrow> system \<Rightarrow> string \<Rightarrow> string \<Rightarrow> Cmd \<Rightarrow> error option \<times> system" where
  "startCommand env s wd commandFullPath c =
     (let (pluginDir, s1) =
            (case filepath_Abs env (filepath_Dir env commandFullPath) of
               Inl e \<Rightarrow> (wd, logf Warn_NoPluginDirectory (Some (External e)) s)
             | Inr d \<Rightarrow> (d, s));
          c1 = c\<lparr>Stdout := PluginsOutput, Stderr := PluginsOutput, Dir := pluginDir\<rparr>
      in case cmd_Start env c1 of
           Inl e \<Rightarrow> (Some (External e), s1)
         | Inr pid \<Rightarrow>
             (None, emit (CmdStart c1 pid)
                      (s1\<lparr>extraProcesses := extraProcesses s1 @ [c1\<lparr>Process := Some pid\<rparr>]\<rparr>)))"

definition startPlugin ::
  "env \<Rightarrow> system \<Rightarrow> string \<Rightarrow> CommandPlugin \<Rightarrow> error option \<times> system" where
  "startPlugin env s wd plugin =
     (case filepath_Abs env (Executable plugin) of
        Inl e \<Rightarrow> (Some (External e), s)
      | Inr commandFullPath \<Rightarrow>
          startCommand env s wd commandFullPath
            (buildCommand Background commandFullPath (Arguments plugin)))"

text \<open>\<^verbatim>\<open>strings.Split(s, sep)\<close> for a separator of one character.\<close>

fun strings_Split :: "char \<Rightarrow> string \<Rightarrow> string list" where
  "strings_Split sep [] = [[]]"
| "strings_Split sep (x # xs) =
     (if x = sep then [] # strings_Split sep xs
      else (case strings_Split sep xs of
              [] \<Rightarrow> [[x]]
            | p # ps \<Rightarrow> (x # p) # ps))"

definition strings_Contains :: "string \<Rightarrow> char \<Rightarrow> bool" where
  "strings_Contains s sep = (sep \<in> set s)"

definition startChildProcess ::
  "env \<Rightarrow> system \<Rightarrow> string \<Rightarrow> string \<Rightarrow> error option \<times> system" where
  "startChildProcess env s wd command =
     (case strings_Split (CHR '' '') command of
        [] \<Rightarrow> (None, s)
      | part0 # parts \<Rightarrow>
          (case filepath_Abs env part0 of
             Inl e \<Rightarrow> (Some (External e), s)
           | Inr commandFullPath \<Rightarrow>
               startCommand env s wd commandFullPath
                 (if length (part0 # parts) > 1
                  then buildCommand Background commandFullPath parts
                  else buildCommand Background commandFullPath [])))"

text \<open>
  The loop of \<^verbatim>\<open>stopChildProcesses\<close>: the events of killing every tracked
  command in order. A command whose \<^verbatim>\<open>Process\<close> is nil is handed to \<^verbatim>\<open>kill\<close> and
  then dereferenced (\<^verbatim>\<open>Process.Pid\<close> in the log line, or \<^verbatim>\<open>Process.Release()\<close>).
\<close>

fun killProcesses :: "env \<Rightarrow> Cmd list \<Rightarrow> fault + event list" where
  "killProcesses env [] = Inr []"
| "killProcesses env (command # rest) =
     (case Process command of
        None \<Rightarrow> Inl NilPointerDereference
      | Some pid \<Rightarrow>
          (case killProcesses env rest of
             Inl f \<Rightarrow> Inl f
           | Inr evs \<Rightarrow>
               (case kill env (Some pid) of
                  Some e \<Rightarrow>
                    Inr ([Kill (Some pid), Logged Error_CannotKillProcess (Some (External e))] @ evs)
                | None \<Rightarrow> Inr ([Kill (Some pid), Release pid] @ evs))))"

definition stopChildProcesses :: "env \<Rightarrow> system \<Rightarrow> fault + system" where
  "stopChildProcesses env s =
     (case killProcesses env (extraProcesses s) of
        Inl f \<Rightarrow> Inl f
      | Inr evs \<Rightarrow> Inr (s\<lparr>extraProcesses := [], trace := trace s @ [WrapperStop] @ evs\<rparr>))"

subsection \<open>Done-waiters\<close>

text \<open>
  A send inside \<^verbatim>\<open>select\<close> with a \<^verbatim>\<open>default\<close>: it panics on a closed channel,
  goes through when a receiver is blocked on the channel or its buffer has room,
  and is skipped otherwise.
\<close>

definition try_send :: "chan \<Rightarrow> fault + chan option" where
  "try_send ch =
     (if ch_closed ch then Inl SendOnClosedChannel
      else if 0 < ch_recvq ch then Inr (Some (ch\<lparr>ch_recvq := ch_recvq ch - 1\<rparr>))
      else if ch_len ch < ch_cap ch then Inr (Some (ch\<lparr>ch_len := ch_len ch + 1\<rparr>))
      else Inr None)"

text \<open>The loop over \<^verbatim>\<open>notifyDoneChs\<close> in \<^verbatim>\<open>onStop\<close>; a nil channel is never ready.\<close>

fun signalDone :: "nat option list \<Rightarrow> system \<Rightarrow> fault + system" where
  "signalDone [] s = Inr s"
| "signalDone (doneCh # rest) s =
     (case doneCh of
        None \<Rightarrow> signalDone rest s
      | Some i \<Rightarrow>
          (case try_send (chans s i) of
             Inl f \<Rightarrow> Inl f
           | Inr None \<Rightarrow> signalDone rest s
           | Inr (Some ch') \<Rightarrow>
               signalDone rest (emit (ChanSend i) (s\<lparr>chans := (chans s)(i := ch')\<rparr>))))"

subsection \<open>Teardown\<close>

definition onStop :: "env \<Rightarrow> system \<Rightarrow> fault + (error option \<times> system)" where
  "onStop env s =
     (let s1 = (logf Debug_ServerStopped None s)\<lparr>raceEvent := None\<rparr>
      in case stopUDPListener env s1 of
           Inl f \<Rightarrow> Inl f
         | Inr (Some err, s2) \<Rightarrow> Inr (Some err, s2)
         | Inr (None, s2) \<Rightarrow>
             (case stopChildProcesses env s2 of
                Inl f \<Rightarrow> Inl f
              | Inr s3 \<Rightarrow>
                  (case signalDone (notifyDoneChs s3) s3 of
                     Inl f \<Rightarrow> Inl f
                   | Inr s4 \<Rightarrow> Inr (None, s4))))"

text \<open>
  The branch \<^verbatim>\<open>case err := <-sp.run\<close> of the control loop: the exit of the main
  process arrives, a non-nil error is logged, and \<^verbatim>\<open>onStop\<close> runs. Its result is
  what a \<^verbatim>\<open>Stop\<close> blocked on \<^verbatim>\<open>sp.stopped\<close> receives; with no such receiver the
  result is dropped.
\<close>

definition loop_run :: "env \<Rightarrow> system \<Rightarrow> error option \<Rightarrow> fault + (error option \<times> system)" where
  "loop_run env s err =
     onStop env (if err \<noteq> None then logf Warn_ProcessEndedWithError err s else s)"

subsection \<open>Launch\<close>

text \<open>
  \<^verbatim>\<open>startRaceEvent\<close>, in the order of its text. The sTracker block, the loop
  over the configured plugins and the loop over \<^verbatim>\<open>run_on_start\<close> are definitions
  of their own.
\<close>

definition startStracker ::
  "env \<Rightarrow> system \<Rightarrow> string \<Rightarrow> ServerOptions \<Rightarrow> fault + (error option \<times> system)" where
  "startStracker env s wd serverOptions =
     (case store_LoadStrackerOptions env of
        Inl e \<Rightarrow> Inr (None, s)
      | Inr strackerOptions \<Rightarrow>
          if EnableStracker strackerOptions \<and> IsStrackerInstalled env then
            (if (UDPPluginLocalPort serverOptions \<ge> 0 \<and> UDPPluginAddress serverOptions \<noteq> [])
                \<or> strings_Contains (UDPPluginAddress serverOptions) (CHR '':'')
             then
               (case strings_Split (CHR '':'') (UDPPluginAddress serverOptions) of
                  part0 # part1 # parts \<Rightarrow>
                    (let strackerOptions1 = strackerOptions
                           \<lparr>ACPlugin_SendPort := UDPPluginLocalPort serverOptions,
                            ACPlugin_ReceivePort := formValueAsInt env part1\<rparr>;
                         s1 = emit (StrackerWrite strackerOptions1) s
                     in case strackerOptions_Write env strackerOptions1 of
                          Some e \<Rightarrow> Inr (Some (External e), s1)
                        | None \<Rightarrow>
                            (case startPlugin env s1 wd
                                    \<lparr>Executable = StrackerExecutablePath env,
                                     Arguments = [''--stracker_ini'',
                                       filepath_Join env (StrackerFolderPath env)
                                         (strackerConfigIniFilename env)]\<rparr> of
                               (Some err, s2) \<Rightarrow> Inr (Some err, s2)
                             | (None, s2) \<Rightarrow> Inr (None, logf Info_StartedStracker None s2)))
                | _ \<Rightarrow> Inl IndexOutOfRange)
             else Inr (None, logf Error_CheckServerConfiguration
                               (Some ErrStrackerConfigurationRequiresUDPPluginConfiguration) s))
          else Inr (None, s))"

fun startPlugins :: "env \<Rightarrow> system \<Rightarrow> string \<Rightarrow> CommandPlugin list \<Rightarrow> system" where
  "startPlugins env s wd [] = s"
| "startPlugins env s wd (plugin # rest) =
     (case startPlugin env s wd plugin of
        (Some err, s1) \<Rightarrow>
          startPlugins env (logf Error_CouldNotRunExtraCommand (Some err) s1) wd rest
      | (None, s1) \<Rightarrow> startPlugins env s1 wd rest)"

fun startCommands :: "env \<Rightarrow> system \<Rightarrow> string \<Rightarrow> string list \<Rightarrow> system" where
  "startCommands env s wd [] = s"
| "startCommands env s wd (command # rest) =
     (case startChildProcess env s wd command of
        (Some err, s1) \<Rightarrow>
          startCommands env (logf Error_CouldNotRunExtraCommand (Some err) s1) wd rest
      | (None, s1) \<Rightarrow> startCommands env s1 wd rest)"

definition startRunOnStart :: "env \<Rightarrow> system \<Rightarrow> string \<Rightarrow> system" where
  "startRunOnStart env s wd =
     (if length (config_Server_RunOnStart env) > 0
      then startCommands env (logf Warn_RunOnStartDeprecated None s) wd
             (config_Server_RunOnStart env)
      else s)"

text \<open>
  The body of the goroutine that starts the companion wrapper, run at some later
  time on the state of that time: it reads \<^verbatim>\<open>sp.raceEvent\<close> and logs a failure.
\<close>

definition contentManagerWrapper_goroutine :: "env \<Rightarrow> system \<Rightarrow> int \<Rightarrow> system" where
  "contentManagerWrapper_goroutine env s port =
     (case contentManagerWrapper_Start env port (raceEvent s) of
        Some e \<Rightarrow> logf Error_CouldNotStartWrapper (Some (External e)) s
      | None \<Rightarrow> s)"

text \<open>
  The part of \<^verbatim>\<open>startRaceEvent\<close> after the main process was handed to its
  goroutine: from \<^verbatim>\<open>LoadServerOptions\<close> to the final \<^verbatim>\<open>return nil\<close>.
\<close>

definition startAuxiliaries ::
  "env \<Rightarrow> system \<Rightarrow> string \<Rightarrow> fault + (error option \<times> system)" where
  "startAuxiliaries env s wd =
     (case store_LoadServerOptions env of
        Inl e \<Rightarrow> Inr (Some (External e), s)
      | Inr serverOptions \<Rightarrow>
          (let s1 = (if EnableContentManagerWrapper serverOptions = 1
                        \<and> ContentManagerWrapperPort serverOptions > 0
                     then emit (GoWrapperStart (ContentManagerWrapperPort serverOptions)) s
                     else s)
           in case startStracker env s1 wd serverOptions of
                Inl f \<Rightarrow> Inl f
              | Inr (Some err, s2) \<Rightarrow> Inr (Some err, s2)
              | Inr (None, s2) \<Rightarrow>
                  Inr (None, startRunOnStart env
                               (startPlugins env s2 wd (config_Server_Plugins env)) wd)))"

definition startRaceEvent ::
  "env \<Rightarrow> system \<Rightarrow> RaceEvent \<Rightarrow> fault + (error option \<times> system)" where
  "startRaceEvent env s event =
     (let s1 = logf (Info_StartingServerProcess event) None s;
          executablePath =
            (if filepath_IsAbs env (config_Steam_ExecutablePath env)
             then config_Steam_ExecutablePath env
             else filepath_Join env (ServerInstallPath env) (config_Steam_ExecutablePath env));
          c = WithCancel (contexts s1);
          mainCmd = (buildCommand c executablePath [])
                      \<lparr>Dir := ServerInstallPath env,
                       Stdout := LogBufferSink, Stderr := LogBufferSink\<rparr>;
          s2 = s1\<lparr>ctx := Some c, cfn := Some c, contexts := Suc (contexts s1),
                  cmd := Some mainCmd\<rparr>
      in case startUDPListener env s2 of
           (Some err, s3) \<Rightarrow> Inr (Some err, s3)
         | (None, s3) \<Rightarrow>
             (case os_Getwd env of
                Inl e \<Rightarrow> Inr (Some (External e), s3)
              | Inr wd \<Rightarrow>
                  startAuxiliaries env
                    (emit (GoCmdRun mainCmd) (s3\<lparr>raceEvent := event\<rparr>)) wd))"

subsection \<open>Stop, Start and the control loop\<close>

text \<open>
  What the \<^verbatim>\<open>select\<close> of \<^verbatim>\<open>Stop\<close> can do. Each of the two timers fires once, so
  the loop of \<^verbatim>\<open>Stop\<close> takes the soft timeout at most once and then ends in one of
  two ways: it receives from \<^verbatim>\<open>sp.stopped\<close>, or the hard timeout fires.
  \<open>Stopped err\<close> is the first: the control loop has received the exit of the main
  process (with the exit error \<open>err\<close>), has run \<^verbatim>\<open>onStop\<close> and hands its result
  over.

  The control loop hands the result over with a send that does not block
  (\<^verbatim>\<open>select\<close> with \<^verbatim>\<open>default\<close>), so the result reaches \<^verbatim>\<open>Stop\<close> only while \<^verbatim>\<open>Stop\<close>
  is blocked in its own \<^verbatim>\<open>select\<close>. \<^verbatim>\<open>Stop\<close> is not there before it enters the
  \<^verbatim>\<open>select\<close> for the first time, while the branch of the soft timeout waits for
  the mutex that \<^verbatim>\<open>onStop\<close> holds, and between the end of that branch and the next
  round of the loop. An exit that the control loop handles at such a moment runs
  \<^verbatim>\<open>onStop\<close> all the same and the result is dropped; the \<^verbatim>\<open>Stop\<close> goes on waiting
  and can end in the hard timeout after a teardown that has run. \<open>MissedExit err\<close>
  is such an exit before \<^verbatim>\<open>Stop\<close> enters its \<^verbatim>\<open>select\<close> or before the branch of
  the soft timeout has the mutex, and the rest of the schedule follows it;
  \<open>AfterTimeoutMissed err\<close> is such an exit after the branch of the soft timeout.
\<close>

datatype wait_end = Stopped "error option" | FullTimeout

datatype stop_schedule =
    Direct wait_end
  | AfterTimeout wait_end
  | MissedExit "error option" stop_schedule
  | AfterTimeoutMissed "error option" wait_end

text \<open>The branch \<^verbatim>\<open>case <-timeout\<close>: \<^verbatim>\<open>sp.cmd.Process\<close> is read through \<^verbatim>\<open>sp.cmd\<close>.\<close>

definition Stop_timeout :: "env \<Rightarrow> system \<Rightarrow> fault + system" where
  "Stop_timeout env s =
     (let s1 = logf Debug_ManualKill None s
      in case cmd s1 of
           None \<Rightarrow> Inl NilPointerDereference
         | Some c \<Rightarrow>
             (let s2 = emit (Kill (Process c)) s1
              in case kill env (Process c) of
                   Some e \<Rightarrow> Inr (logf Error_CouldNotForciblyKill (Some (External e)) s2)
                 | None \<Rightarrow> Inr s2))"

text \<open>
  The end of the wait. The hard timeout itself does nothing to the state. A
  teardown that ran while \<^verbatim>\<open>Stop\<close> was not in its \<^verbatim>\<open>select\<close> is a missed exit of
  the schedule, so a \<^verbatim>\<open>Stop\<close> can return the timeout error after a teardown that
  has run.
\<close>

definition Stop_end :: "env \<Rightarrow> system \<Rightarrow> wait_end \<Rightarrow> fault + (error option \<times> system)" where
  "Stop_end env s w =
     (case w of
        Stopped err \<Rightarrow> loop_run env s err
      | FullTimeout \<Rightarrow> Inr (Some ErrServerProcessTimeout, s))"

text \<open>
  The \<^verbatim>\<open>for\<close> loop of \<^verbatim>\<open>Stop\<close> under a schedule. The result of \<^verbatim>\<open>onStop\<close> for a
  missed exit goes to nobody.
\<close>

fun Stop_wait :: "env \<Rightarrow> system \<Rightarrow> stop_schedule \<Rightarrow> fault + (error option \<times> system)" where
  "Stop_wait env s (Direct w) = Stop_end env s w"
| "Stop_wait env s (AfterTimeout w) =
     (case Stop_timeout env s of
        Inl f \<Rightarrow> Inl f
      | Inr s2 \<Rightarrow> Stop_end env s2 w)"
| "Stop_wait env s (MissedExit err sched) =
     (case loop_run env s err of
        Inl f \<Rightarrow> Inl f
      | Inr (dropped, s2) \<Rightarrow> Stop_wait env s2 sched)"
| "Stop_wait env s (AfterTimeoutMissed err w) =
     (case Stop_timeout env s of
        Inl f \<Rightarrow> Inl f
      | Inr s2 \<Rightarrow>
          (case loop_run env s2 err of
             Inl f \<Rightarrow> Inl f
           | Inr (dropped, s3) \<Rightarrow> Stop_end env s3 w))"

text \<open>\<^verbatim>\<open>Stop\<close>: the call \<^verbatim>\<open>sp.cfn()\<close> of a nil function value panics.\<close>

definition Stop :: "env \<Rightarrow> system \<Rightarrow> stop_schedule \<Rightarrow> fault + (error option \<times> system)" where
  "Stop env s sched =
     (case cfn s of
        None \<Rightarrow> Inl NilPointerDereference
      | Some c \<Rightarrow> Stop_wait env (emit (ContextCancel c) s) sched)"

text \<open>
  The branch \<^verbatim>\<open>case raceEvent := <-sp.start\<close> of the control loop; the result is
  what it sends on \<^verbatim>\<open>sp.started\<close>.
\<close>

definition loop_start ::
  "env \<Rightarrow> system \<Rightarrow> RaceEvent \<Rightarrow> stop_schedule \<Rightarrow> fault + (error option \<times> system)" where
  "loop_start env s event sched =
     (if IsRunning s then
        (case Stop env s sched of
           Inl f \<Rightarrow> Inl f
         | Inr (Some err, s1) \<Rightarrow> Inr (Some err, s1)
         | Inr (None, s1) \<Rightarrow> startRaceEvent env s1 event)
      else startRaceEvent env s event)"

text \<open>The locked block at the head of \<^verbatim>\<open>Start\<close>.\<close>

definition setAddressing :: "system \<Rightarrow> string \<Rightarrow> int \<Rightarrow> string \<Rightarrow> int \<Rightarrow> system" where
  "setAddressing s address localPort forwarding forwardPort =
     s\<lparr>udpPluginAddress := address, udpPluginLocalPort := localPort,
       forwardingAddress := forwarding, forwardListenPort := forwardPort\<rparr>"

text \<open>
  \<^verbatim>\<open>Start\<close>: the addressing is stored, the event is handed to the control loop
  and the loop's reply is returned. The schedule is that of the \<^verbatim>\<open>Stop\<close> the loop
  makes when a session is running.
\<close>

definition Start ::
  "env \<Rightarrow> system \<Rightarrow> RaceEvent \<Rightarrow> string \<Rightarrow> int \<Rightarrow> string \<Rightarrow> int \<Rightarrow> stop_schedule
     \<Rightarrow> fault + (error option \<times> system)" where
  "Start env s event address localPort forwarding forwardPort sched =
     loop_start env (setAddressing s address localPort forwarding forwardPort) event sched"

text \<open>
  \<^verbatim>\<open>Restart\<close>: the event and the addressing are read before the \<^verbatim>\<open>Stop\<close>, so an
  idle supervisor is started with a nil event. The first schedule is that of the
  \<^verbatim>\<open>Stop\<close> of \<^verbatim>\<open>Restart\<close>, the second that of the \<^verbatim>\<open>Stop\<close> inside \<^verbatim>\<open>Start\<close>.
\<close>

definition Restart ::
  "env \<Rightarrow> system \<Rightarrow> stop_schedule \<Rightarrow> stop_schedule \<Rightarrow> fault + (error option \<times> system)" where
  "Restart env s sched sched' =
     (let running = IsRunning s;
          event = raceEvent s;
          address = udpPluginAddress s;
          localPort = udpPluginLocalPort s;
          forwarding = forwardingAddress s;
          forwardPort = forwardListenPort s
      in if running then
           (case Stop env s sched of
              Inl f \<Rightarrow> Inl f
            | Inr (Some err, s1) \<Rightarrow> Inr (Some err, s1)
            | Inr (None, s1) \<Rightarrow>
                Start env s1 event address localPort forwarding forwardPort sched')
         else Start env s event address localPort forwarding forwardPort sched')"

text \<open>
  The goroutine \<^verbatim>\<open>sp.run <- sp.cmd.Run()\<close> starts the main process: \<^verbatim>\<open>Run\<close>
  stores the handle in the \<^verbatim>\<open>Process\<close> field of the command \<^verbatim>\<open>sp.cmd\<close> points to.
\<close>

definition cmd_Run_started :: "system \<Rightarrow> nat \<Rightarrow> system" where
  "cmd_Run_started s pid = s\<lparr>cmd := map_option (\<lambda>c. c\<lparr>Process := Some pid\<rparr>) (cmd s)\<rparr>"

text \<open>
  Calls on one supervisor, one after the other: a \<^verbatim>\<open>Start\<close>, a \<^verbatim>\<open>Stop\<close>, the
  main process coming up, its
  exit arriving at the control loop while no \<^verbatim>\<open>Stop\<close> waits
  (the result of \<^verbatim>\<open>onStop\<close> is then dropped by the \<^verbatim>\<open>select\<close>), a
  \<^verbatim>\<open>NotifyDone\<close>, a \<^verbatim>\<open>SendUDPMessage\<close>, a \<^verbatim>\<open>Restart\<close>, the goroutine of the
  companion wrapper running its body, and the owner of a waiter channel acting on
  it (it starts or stops receiving, takes an item out, closes the channel): the
  channel is then in the state given. A run gives the result of every call and
  the final state; a panic ends it.
\<close>

datatype call =
    CallStart RaceEvent string int string int stop_schedule
  | CallStop stop_schedule
  | ProcessStarted nat
  | ProcessExit "error option"
  | CallNotifyDone "nat option"
  | CallSendUDPMessage Message
  | CallRestart stop_schedule stop_schedule
  | WrapperGoroutine int
  | WaiterActs nat chan

fun step :: "env \<Rightarrow> system \<Rightarrow> call \<Rightarrow> fault + (error option \<times> system)" where
  "step env s (CallStart event address localPort forwarding forwardPort sched) =
     Start env s event address localPort forwarding forwardPort sched"
| "step env s (CallStop sched) = Stop env s sched"
| "step env s (ProcessStarted pid) = Inr (None, cmd_Run_started s pid)"
| "step env s (ProcessExit err) = loop_run env s err"
| "step env s (CallNotifyDone ch) = Inr (None, NotifyDone s ch)"
| "step env s (CallSendUDPMessage message) = Inr (SendUDPMessage env s message)"
| "step env s (CallRestart sched sched') = Restart env s sched sched'"
| "step env s (WrapperGoroutine port) = Inr (None, contentManagerWrapper_goroutine env s port)"
| "step env s (WaiterActs i ch) = Inr (None, s\<lparr>chans := (chans s)(i := ch)\<rparr>)"

fun run :: "env \<Rightarrow> system \<Rightarrow> call list \<Rightarrow> fault + (error option list \<times> system)" where
  "run env s [] = Inr ([], s)"
| "run env s (c # cs) =
     (case step env s c of
        Inl f \<Rightarrow> Inl f
      | Inr (r, s1) \<Rightarrow>
          (case run env s1 cs of
             Inl f \<Rightarrow> Inl f
           | Inr (rs, s2) \<Rightarrow> Inr (r # rs, s2)))"

text \<open>Reading a result: what was returned, and a field of the state left behind.\<close>

definition returned :: "fault + ('r \<times> system) \<Rightarrow> fault + 'r" where
  "returned r = map_sum id fst r"

definition after :: "(system \<Rightarrow> 'a) \<Rightarrow> fault + ('r \<times> system) \<Rightarrow> 'a option" where
  "after field r = (case r of Inl f \<Rightarrow> None | Inr (e, s) \<Rightarrow> Some (field s))"

subsection \<open>Reading the trace\<close>

text \<open>The events a call appended: the trace of the later state without that of the earlier.\<close>

definition new_events :: "system \<Rightarrow> system \<Rightarrow> event list" where
  "new_events s s' = drop (length (trace s)) (trace s')"

text \<open>Whether a log line with its error is in the trace.\<close>

definition logged :: "logline \<Rightarrow> error option \<Rightarrow> system \<Rightarrow> bool" where
  "logged l e s = (Logged l e \<in> set (trace s))"

text \<open>
  The environment with other best-effort auxiliaries: another list of configured
  plugins, another list of legacy commands, another outcome of the companion
  wrapper's start. Everything else is as it was.
\<close>

definition with_auxiliaries ::
  "env \<Rightarrow> CommandPlugin list \<Rightarrow> string list \<Rightarrow> (int \<Rightarrow> RaceEvent \<Rightarrow> string option) \<Rightarrow> env" where
  "with_auxiliaries env plugins commands wrapper =
     env\<lparr>config_Server_Plugins := plugins, config_Server_RunOnStart := commands,
         contentManagerWrapper_Start := wrapper\<rparr>"





text \<open>Whether some log line of the trace carries the error.\<close>

definition error_logged :: "error \<Rightarrow> system \<Rightarrow> bool" where
  "error_logged err s =
     list_ex (\<lambda>e. case e of Logged l x \<Rightarrow> x = Some err | _ \<Rightarrow> False) (trace s)"

text \<open>
  A launch is the hand-over of the main command to its goroutine. A teardown
  starts with the first log line of \<^verbatim>\<open>onStop\<close>. A spawn is any process or
  goroutine the supervisor starts.
\<close>

fun is_launch :: "event \<Rightarrow> bool" where
  "is_launch (GoCmdRun c) = True"
| "is_launch e = False"

fun is_teardown :: "event \<Rightarrow> bool" where
  "is_teardown (Logged l x) = (l = Debug_ServerStopped)"
| "is_teardown e = False"

fun is_spawn :: "event \<Rightarrow> bool" where
  "is_spawn (GoCmdRun c) = True"
| "is_spawn (GoWrapperStart port) = True"
| "is_spawn (CmdStart c pid) = True"
| "is_spawn e = False"

text \<open>
  The first line of \<^verbatim>\<open>startRaceEvent\<close> announces a launch and tells the event it
  is for.
\<close>

fun announced :: "event \<Rightarrow> RaceEvent option" where
  "announced (Logged l x) =
     (case l of Info_StartingServerProcess event \<Rightarrow> Some event | _ \<Rightarrow> None)"
| "announced e = None"

text \<open>
  Whether a session is active after a trace, read from the trace alone. The
  reading keeps two things: whether a session is active, and whether the launch
  announced last is for a Session Descriptor that is not nil. A launch makes a
  session active when it is for such a descriptor, a teardown ends the session,
  and nothing is active before the first launch: the last launch or teardown in
  the trace decides.
\<close>

primrec active_after :: "bool \<times> bool \<Rightarrow> event list \<Rightarrow> bool \<times> bool" where
  "active_after ad [] = ad"
| "active_after ad (e # es) =
     active_after
       (if is_launch e then (snd ad, snd ad)
        else if is_teardown e then (False, snd ad)
        else (case announced e of
                Some event \<Rightarrow> (fst ad, event \<noteq> None)
              | None \<Rightarrow> ad)) es"

definition session_active :: "event list \<Rightarrow> bool" where
  "session_active tr = fst (active_after (False, False) tr)"

text \<open>
  The exits of the main process that the control loop handles while a \<^verbatim>\<open>Stop\<close>
  with the given schedule runs.
\<close>

fun wait_exits :: "wait_end \<Rightarrow> nat" where
  "wait_exits (Stopped err) = 1"
| "wait_exits FullTimeout = 0"

fun exits_in :: "stop_schedule \<Rightarrow> nat" where
  "exits_in (Direct w) = wait_exits w"
| "exits_in (AfterTimeout w) = wait_exits w"
| "exits_in (MissedExit err sched) = Suc (exits_in sched)"
| "exits_in (AfterTimeoutMissed err w) = Suc (wait_exits w)"

text \<open>A channel a non-blocking send goes through on.\<close>

definition ready :: "chan \<Rightarrow> bool" where
  "ready ch = (0 < ch_recvq ch \<or> ch_len ch < ch_cap ch)"

text \<open>The events of the kill loop, the events of a teardown, and the events of a launch's tail.\<close>

fun kill_event :: "event \<Rightarrow> bool" where
  "kill_event (Kill p) = True"
| "kill_event (Release p) = True"
| "kill_event (Logged l x) = (l = Error_CannotKillProcess)"
| "kill_event e = False"

fun stop_event :: "event \<Rightarrow> bool" where
  "stop_event (ContextCancel c) = True"
| "stop_event (Kill p) = True"
| "stop_event (Release p) = True"
| "stop_event WrapperStop = True"
| "stop_event (UDPClose c) = True"
| "stop_event (ChanSend i) = True"
| "stop_event (Logged l x) =
     (l = Debug_ManualKill \<or> l = Error_CouldNotForciblyKill \<or> l = Warn_ProcessEndedWithError
      \<or> l = Debug_ServerStopped \<or> l = Error_CannotKillProcess)"
| "stop_event e = False"

fun quiet_event :: "event \<Rightarrow> bool" where
  "quiet_event (GoCmdRun c) = False"
| "quiet_event (Logged l x) =
     (case l of
        Debug_ServerStopped \<Rightarrow> False
      | Info_StartingServerProcess event \<Rightarrow> False
      | _ \<Rightarrow> True)"
| "quiet_event e = True"

text \<open>Relations between the state before and the state after, used to state frames.\<close>

definition same_but_chans :: "system \<Rightarrow> system \<Rightarrow> bool" where
  "same_but_chans s s' =
     (raceEvent s' = raceEvent s \<and> notifyDoneChs s' = notifyDoneChs s \<and> ctx s' = ctx s
      \<and> cfn s' = cfn s \<and> logBuffer s' = logBuffer s \<and> cmd s' = cmd s
      \<and> extraProcesses s' = extraProcesses s \<and> udpServerConn s' = udpServerConn s
      \<and> udpPluginAddress s' = udpPluginAddress s \<and> udpPluginLocalPort s' = udpPluginLocalPort s
      \<and> forwardingAddress s' = forwardingAddress s \<and> forwardListenPort s' = forwardListenPort s
      \<and> contexts s' = contexts s)"

definition same_addressing :: "system \<Rightarrow> system \<Rightarrow> bool" where
  "same_addressing s s' =
     (udpPluginAddress s' = udpPluginAddress s \<and> udpPluginLocalPort s' = udpPluginLocalPort s
      \<and> forwardingAddress s' = forwardingAddress s \<and> forwardListenPort s' = forwardListenPort s)"

definition extends :: "(event \<Rightarrow> bool) \<Rightarrow> system \<Rightarrow> system \<Rightarrow> bool" where
  "extends P s s' = (\<exists>evs. trace s' = trace s @ evs \<and> list_all P evs)"

text \<open>Every tracked child has a process handle.\<close>

definition has_handles :: "system \<Rightarrow> bool" where
  "has_handles s = list_all (\<lambda>c. Process c \<noteq> None) (extraProcesses s)"

definition quiet :: "system \<Rightarrow> system \<Rightarrow> bool" where
  "quiet s s' =
     (raceEvent s' = raceEvent s \<and> extends quiet_event s s'
      \<and> (has_handles s \<longrightarrow> has_handles s'))"

text \<open>The launches and the teardowns between two states.\<close>

definition launches :: "system \<Rightarrow> system \<Rightarrow> nat" where
  "launches s s' = length (filter is_launch (new_events s s'))"

definition teardowns :: "system \<Rightarrow> system \<Rightarrow> nat" where
  "teardowns s s' = length (filter is_teardown (new_events s s'))"

text \<open>
  What \<^verbatim>\<open>Stop\<close> and the teardown do to a state: they add events of a stop, \<open>n\<close>
  of them the start of a teardown, leave the addressing alone, and a session is
  running afterwards iff one was running and no teardown has run.
\<close>

definition stops :: "nat \<Rightarrow> system \<Rightarrow> system \<Rightarrow> bool" where
  "stops n s s' =
     ((\<exists>evs. trace s' = trace s @ evs \<and> list_all stop_event evs
            \<and> length (filter is_teardown evs) = n)
      \<and> same_addressing s s'
      \<and> IsRunning s' = (IsRunning s \<and> n = 0)
      \<and> (has_handles s \<longrightarrow> has_handles s'))"

definition tracks :: "system \<Rightarrow> system \<Rightarrow> bool" where
  "tracks s s' =
     (\<exists>evs. trace s' = trace s @ evs
          \<and> (\<forall>d. IsRunning s' = fst (active_after (IsRunning s, d) evs)))"



subsection \<open>An example installation\<close>

text \<open>
  One environment and one set of waiter channels, for evaluating the model: the
  relay opens on \<open>127.0.0.1:9000\<close>, the companion wrapper is enabled and fails to
  bind, sTracker is installed but disabled, the one configured plugin fails to
  start and the one legacy command starts as process 4242. Channel 1 has room for
  one item; every other channel is unbuffered with no receiver.
\<close>

definition example_chans :: "nat \<Rightarrow> chan" where
  "example_chans =
     (\<lambda>i. \<lparr>ch_cap = (if i = 1 then 1 else 0), ch_len = 0, ch_recvq = 0, ch_closed = False\<rparr>)"

definition example_env :: env where
  "example_env =
     \<lparr>config_Steam_ExecutablePath = ''acServer'',
      ServerInstallPath = ''/srv/ac'',
      config_Server_Plugins = [\<lparr>Executable = ''/opt/kissmyrank'', Arguments = []\<rparr>],
      config_Server_RunOnStart = [''/opt/legacy --flag''],
      filepath_IsAbs = (\<lambda>p. take 1 p = ''/''),
      filepath_Join = (\<lambda>a b. a @ ''/'' @ b),
      filepath_Abs = (\<lambda>p. Inr p),
      filepath_Dir = (\<lambda>p. ''/opt''),
      net_SplitHostPort =
        (\<lambda>a. case strings_Split (CHR '':'') a of
                [h, p] \<Rightarrow> Inr (h, p)
              | _ \<Rightarrow> Inl ''missing port in address''),
      strconv_ParseInt = (\<lambda>p. if p = ''9000'' then Inr 9000 else Inl ''invalid syntax''),
      os_Getwd = Inr ''/srv'',
      udp_NewServerClient = (\<lambda>host port localPort forward forwarding forwardPort. None),
      udp_Close_result = (\<lambda>c. None),
      udp_SendMessage =
        (\<lambda>c m. if conn_closed c then Some ''use of closed network connection'' else None),
      store_LoadServerOptions =
        Inr \<lparr>EnableContentManagerWrapper = 1, ContentManagerWrapperPort = 8082,
             UDPPluginLocalPort = 9001, UDPPluginAddress = ''127.0.0.1:9000''\<rparr>,
      store_LoadStrackerOptions =
        Inr \<lparr>EnableStracker = False, ACPlugin_SendPort = 0, ACPlugin_ReceivePort = 0,
             InstanceConfiguration_ListeningPort = 50042\<rparr>,
      IsStrackerInstalled = True,
      strackerOptions_Write = (\<lambda>so. None),
      formValueAsInt = (\<lambda>p. 9000),
      StrackerExecutablePath = ''/opt/stracker/stracker'',
      StrackerFolderPath = ''/opt/stracker'',
      strackerConfigIniFilename = ''stracker.ini'',
      cmd_Start =
        (\<lambda>c. if Path c = ''/opt/kissmyrank'' then Inl ''exec format error'' else Inr 4242),
      kill = (\<lambda>p. None),
      contentManagerWrapper_Start = (\<lambda>port e. Some ''address already in use'')\<rparr>"

text \<open>
  The same installation with sTracker enabled and its configuration file not
  writable, and the same installation with a store that fails to load the server
  options.
\<close>

definition example_env_stracker :: env where
  "example_env_stracker =
     example_env
       \<lparr>store_LoadStrackerOptions :=
          Inr \<lparr>EnableStracker = True, ACPlugin_SendPort = 0, ACPlugin_ReceivePort = 0,
               InstanceConfiguration_ListeningPort = 50042\<rparr>,
        strackerOptions_Write := (\<lambda>so. Some ''permission denied'')\<rparr>"

definition example_env_store_fails :: env where
  "example_env_store_fails = example_env\<lparr>store_LoadServerOptions := Inl ''store failure''\<rparr>"

text \<open>
  The same installation with sTracker enabled, its configuration file written
  and its executable failing to start; with a relay whose close fails; and with
  children that cannot be killed.
\<close>

definition example_env_stracker_launch :: env where
  "example_env_stracker_launch =
     example_env
       \<lparr>store_LoadStrackerOptions :=
          Inr \<lparr>EnableStracker = True, ACPlugin_SendPort = 0, ACPlugin_ReceivePort = 0,
               InstanceConfiguration_ListeningPort = 50042\<rparr>,
        cmd_Start :=
          (\<lambda>c. if Path c = ''/opt/stracker/stracker'' then Inl ''no such file or directory''
               else cmd_Start example_env c)\<rparr>"



text \<open>
  The supervisor after two waiters registered (channel 1, then channel 0) and a
  first \<^verbatim>\<open>Start\<close> of event 7 returned.
\<close>

definition example_calls :: "call list" where
  "example_calls =
     [CallNotifyDone (Some 1), CallNotifyDone (Some 0),
      CallStart (Some 7) ''127.0.0.1:9000'' 9001 [] 0 (Direct FullTimeout)]"

definition example_session :: system where
  "example_session =
     (case run example_env (NewAssettoServerProcess example_chans) example_calls of
        Inl f \<Rightarrow> NewAssettoServerProcess example_chans
      | Inr (rs, s) \<Rightarrow> s)"

section \<open>Properties of the log buffer\<close>

lemma Write_ok:
  assumes "0 \<le> size_lb lb"
  shows "Write lb p =
           Inr (lb\<lparr>buf := drop (length (buf lb) - nat (size_lb lb)) (buf lb) @ p\<rparr>,
                int (length p))"
proof (cases "int (length (buf lb)) > size_lb lb")
  case True
  with assms show ?thesis by (simp add: Write_def Let_def)
next
  case False
  then have "length (buf lb) - nat (size_lb lb) = 0" by simp
  with False show ?thesis by (simp add: Write_def Let_def)
qed

lemma writes_snoc:
  "writes lb (ps @ [p]) =
     (case writes lb ps of
        Inl f \<Rightarrow> Inl f
      | Inr lb' \<Rightarrow> (case Write lb' p of Inl f \<Rightarrow> Inl f | Inr (lb'', n) \<Rightarrow> Inr lb''))"
  by (induction ps arbitrary: lb) (auto split: sum.splits)

lemma writes_ok:
  assumes "0 \<le> size_lb lb"
  shows "\<exists>lb'. writes lb ps = Inr lb' \<and> size_lb lb' = size_lb lb
               \<and> suffix (buf lb') (buf lb @ concat ps)
               \<and> (ps \<noteq> [] \<longrightarrow> int (length (buf lb')) \<le> size_lb lb + int (length (last ps))
                              \<and> suffix (last ps) (buf lb'))"
proof (induction ps rule: rev_induct)
  case Nil
  then show ?case by simp
next
  case (snoc p ps)
  then obtain lb1 where run: "writes lb ps = Inr lb1" and sz: "size_lb lb1 = size_lb lb"
    and suf: "suffix (buf lb1) (buf lb @ concat ps)"
    by blast
  let ?kept = "drop (length (buf lb1) - nat (size_lb lb1)) (buf lb1)"
  let ?lb2 = "lb1\<lparr>buf := ?kept @ p\<rparr>"
  from assms sz have w: "Write lb1 p = Inr (?lb2, int (length p))"
    by (simp add: Write_ok)
  have "suffix ?kept (buf lb1)" by (rule suffix_drop)
  from this suf have "suffix ?kept (buf lb @ concat ps)" by (rule suffix_order.trans)
  then have s2: "suffix (?kept @ p) (buf lb @ concat (ps @ [p]))"
    by (simp add: suffix_def)
  have len: "int (length ?kept) \<le> size_lb lb" using assms sz by simp
  from run w sz s2 len show ?case
    by (simp add: writes_snoc suffix_def)
qed

text \<open>
  C9: a single \<^verbatim>\<open>Write\<close> never loses any of its own bytes, whatever the length
  of the call: for a buffer with a cap \<open>C \<ge> 0\<close>, \<^verbatim>\<open>Write(p)\<close> returns
  \<open>len(p)\<close> without a panic and \<^verbatim>\<open>String()\<close> then ends with \<open>p\<close>; when the
  buffer was empty \<^verbatim>\<open>String()\<close> is exactly \<open>p\<close>, in particular for a write of
  exactly \<open>C\<close> bytes.
\<close>

theorem Write_keeps_own_bytes:
  assumes "0 \<le> size_lb lb"
  shows "\<exists>lb'. Write lb p = Inr (lb', int (length p))
              \<and> suffix p (String lb')
              \<and> (buf lb = [] \<longrightarrow> String lb' = p)"
  using assms by (simp add: Write_ok String_def suffix_def)

theorem Write_keeps_own_bytes_witness:
  "Write (newLogBuffer 3) [1, 2, 3] = Inr (\<lparr>buf = [1, 2, 3], size_lb = 3\<rparr>, 3)
   \<and> String \<lparr>buf = [1, 2, 3], size_lb = 3\<rparr> = [1, 2, 3]
   \<and> suffix [4, 5, 6, 7 :: byte] (String \<lparr>buf = [3, 4, 5, 6, 7], size_lb = 1\<rparr>)
   \<and> Write \<lparr>buf = [1, 2, 3], size_lb = 1\<rparr> [4, 5, 6, 7]
       = Inr (\<lparr>buf = [3, 4, 5, 6, 7], size_lb = 1\<rparr>, 4)"
proof -
  have a: "(0::int) \<le> size_lb (newLogBuffer 3)" by (simp add: newLogBuffer_def)
  have b: "(0::int) \<le> size_lb \<lparr>buf = [1, 2, 3], size_lb = 1\<rparr>" by simp
  from Write_keeps_own_bytes [OF a, of "[1, 2, 3]"]
    Write_keeps_own_bytes [OF b, of "[4, 5, 6, 7]"]
  show ?thesis
    by (simp add: Write_def newLogBuffer_def String_def suffix_def)
qed

text \<open>
  C4, as the code has it: after any sequence of \<^verbatim>\<open>Write\<close> calls into a fresh
  buffer with cap \<open>C \<ge> 0\<close>, \<^verbatim>\<open>String()\<close> is byte for byte a suffix of the
  concatenation of everything written. Its length is not bounded by \<open>C\<close>: the cut
  to \<open>C\<close> bytes is applied to the old contents before the last write is appended,
  so the bound is \<open>C\<close> plus the length of the last write, and that last write is
  held in full.
\<close>

theorem String_suffix_of_all_writes:
  assumes "0 \<le> C"
  shows "\<exists>lb. writes (newLogBuffer C) ps = Inr lb
             \<and> suffix (String lb) (concat ps)
             \<and> (if ps = [] then String lb = []
                 else int (length (String lb)) \<le> C + int (length (last ps))
                      \<and> suffix (last ps) (String lb))"
proof -
  have "0 \<le> size_lb (newLogBuffer C)" using assms by (simp add: newLogBuffer_def)
  from writes_ok [OF this, of ps] show ?thesis
    by (cases "ps = []") (auto simp: newLogBuffer_def String_def)
qed

theorem String_suffix_of_all_writes_witness:
  "writes (newLogBuffer 2) [[1, 2, 3], [4]] = Inr \<lparr>buf = [2, 3, 4], size_lb = 2\<rparr>
   \<and> suffix (String \<lparr>buf = [2, 3, 4], size_lb = 2\<rparr>) (concat [[1, 2, 3], [4 :: byte]])
   \<and> int (length (String \<lparr>buf = [2, 3, 4], size_lb = 2\<rparr>)) \<le> 2 + int (length [4 :: byte])"
proof -
  have c: "(0::int) \<le> 2" by simp
  from String_suffix_of_all_writes [OF c, of "[[1, 2, 3], [4]]"]
  show ?thesis
    by (simp add: Write_def newLogBuffer_def String_def)
qed

text \<open>
  The claim as stated fails: with cap 2, writing three bytes and then one byte
  (four bytes in total, more than the cap) leaves three bytes in \<^verbatim>\<open>String()\<close>.
\<close>

theorem String_longer_than_cap:
  "writes (newLogBuffer 2) [[1, 2, 3], [4]] = Inr \<lparr>buf = [2, 3, 4], size_lb = 2\<rparr>
   \<and> int (length (concat [[1, 2, 3], [4 :: byte]])) > 2
   \<and> \<not> int (length (String \<lparr>buf = [2, 3, 4], size_lb = 2\<rparr>)) \<le> 2"
  by (simp add: Write_def newLogBuffer_def String_def)


section \<open>Frames\<close>

lemma emit_fields [simp]:
  "raceEvent (emit e s) = raceEvent s"
  "notifyDoneChs (emit e s) = notifyDoneChs s"
  "ctx (emit e s) = ctx s"
  "cfn (emit e s) = cfn s"
  "logBuffer (emit e s) = logBuffer s"
  "cmd (emit e s) = cmd s"
  "extraProcesses (emit e s) = extraProcesses s"
  "udpServerConn (emit e s) = udpServerConn s"
  "udpPluginAddress (emit e s) = udpPluginAddress s"
  "udpPluginLocalPort (emit e s) = udpPluginLocalPort s"
  "forwardingAddress (emit e s) = forwardingAddress s"
  "forwardListenPort (emit e s) = forwardListenPort s"
  "chans (emit e s) = chans s"
  "contexts (emit e s) = contexts s"
  "trace (emit e s) = trace s @ [e]"
  by (simp_all add: emit_def)

lemma logf_fields [simp]:
  "raceEvent (logf l x s) = raceEvent s"
  "notifyDoneChs (logf l x s) = notifyDoneChs s"
  "ctx (logf l x s) = ctx s"
  "cfn (logf l x s) = cfn s"
  "logBuffer (logf l x s) = logBuffer s"
  "cmd (logf l x s) = cmd s"
  "extraProcesses (logf l x s) = extraProcesses s"
  "udpServerConn (logf l x s) = udpServerConn s"
  "udpPluginAddress (logf l x s) = udpPluginAddress s"
  "udpPluginLocalPort (logf l x s) = udpPluginLocalPort s"
  "forwardingAddress (logf l x s) = forwardingAddress s"
  "forwardListenPort (logf l x s) = forwardListenPort s"
  "chans (logf l x s) = chans s"
  "contexts (logf l x s) = contexts s"
  "trace (logf l x s) = trace s @ [Logged l x]"
  by (simp_all add: logf_def)

lemma IsRunning_frames [simp]:
  "IsRunning (emit e s) = IsRunning s"
  "IsRunning (logf l x s) = IsRunning s"
  by (simp_all add: IsRunning_def)

subsection \<open>Traces that grow\<close>

lemma extends_refl [simp]: "extends P s s"
  by (simp add: extends_def)

lemma extends_same_trace: "trace t' = trace t \<Longrightarrow> extends P s t \<Longrightarrow> extends P s t'"
  by (simp add: extends_def)

lemma extends_more: "trace t' = trace t @ evs \<Longrightarrow> list_all P evs \<Longrightarrow> extends P s t \<Longrightarrow> extends P s t'"
  by (auto simp: extends_def)

lemma extends_emit: "P e \<Longrightarrow> extends P s t \<Longrightarrow> extends P s (emit e t)"
  by (rule extends_more [where evs = "[e]"]) simp_all

lemma extends_logf: "P (Logged l x) \<Longrightarrow> extends P s t \<Longrightarrow> extends P s (logf l x t)"
  by (rule extends_more [where evs = "[Logged l x]"]) simp_all

lemma extends_trans: "extends P s t \<Longrightarrow> extends P t u \<Longrightarrow> extends P s u"
  by (auto simp: extends_def)

lemma extends_mono: "extends P s t \<Longrightarrow> (\<And>e. P e \<Longrightarrow> Q e) \<Longrightarrow> extends Q s t"
  by (auto simp: extends_def list_all_iff)

lemma extends_subset: "extends P s t \<Longrightarrow> set (trace s) \<subseteq> set (trace t)"
  by (auto simp: extends_def)

lemma extends_new_events: "extends P s t \<Longrightarrow> trace t = trace s @ new_events s t \<and> list_all P (new_events s t)"
  by (auto simp: extends_def new_events_def)

subsection \<open>Relay close\<close>

lemma stopUDPListener_nil:
  "udpServerConn s = None \<Longrightarrow> stopUDPListener env s = Inr (None, s)"
  by (simp add: stopUDPListener_def udp_Close_def)

lemma stopUDPListener_conn:
  "udpServerConn s = Some c \<Longrightarrow>
   stopUDPListener env s =
     Inr (map_option External (udp_Close_result env c),
          emit (UDPClose c) (s\<lparr>udpServerConn := Some (c\<lparr>conn_closed := True\<rparr>)\<rparr>))"
  by (simp add: stopUDPListener_def udp_Close_def)

subsection \<open>Killing the children\<close>

lemma killProcesses_events:
  "killProcesses env cs = Inr evs \<Longrightarrow> list_all kill_event evs"
  by (induction cs arbitrary: evs) (auto split: option.splits sum.splits)

lemma killProcesses_ok:
  assumes "\<forall>c \<in> set cs. Process c \<noteq> None"
  shows "\<exists>evs. killProcesses env cs = Inr evs
            \<and> (\<forall>c \<in> set cs. Kill (Process c) \<in> set evs)
            \<and> (\<forall>pid. Release pid \<in> set evs \<longleftrightarrow>
                  (\<exists>c \<in> set cs. Process c = Some pid \<and> kill env (Some pid) = None))"
  using assms
proof (induction cs)
  case Nil
  then show ?case by simp
next
  case (Cons c cs)
  then obtain evs where ih: "killProcesses env cs = Inr evs"
      "\<forall>c \<in> set cs. Kill (Process c) \<in> set evs"
      "\<forall>pid. Release pid \<in> set evs \<longleftrightarrow>
                  (\<exists>c \<in> set cs. Process c = Some pid \<and> kill env (Some pid) = None)"
    by auto
  from Cons.prems obtain pid where pid: "Process c = Some pid" by auto
  show ?case
  proof (cases "kill env (Some pid)")
    case None
    with ih pid show ?thesis by auto
  next
    case (Some e)
    with ih pid show ?thesis by auto
  qed
qed

lemma kill_event_stop_event: "kill_event e \<Longrightarrow> stop_event e"
  by (cases e) auto

lemma kill_event_quiet_event: "kill_event e \<Longrightarrow> quiet_event e"
  by (cases e) auto

lemma stopChildProcesses_frame:
  assumes "stopChildProcesses env s = Inr s'"
  shows "\<exists>kills. killProcesses env (extraProcesses s) = Inr kills
           \<and> s' = s\<lparr>extraProcesses := [], trace := trace s @ [WrapperStop] @ kills\<rparr>"
  using assms by (auto simp: stopChildProcesses_def split: sum.splits)

subsection \<open>Signalling the waiters\<close>

lemma try_send_cases:
  assumes "\<not> ch_closed ch"
  shows "(ready ch \<and> (\<exists>ch'. try_send ch = Inr (Some ch') \<and> \<not> ch_closed ch'))
         \<or> (\<not> ready ch \<and> try_send ch = Inr None)"
  using assms by (auto simp: try_send_def ready_def)

lemma signalDone_frame:
  "signalDone chs s = Inr s' \<Longrightarrow>
     same_but_chans s s' \<and> (\<exists>sent. trace s' = trace s @ map ChanSend sent)"
proof (induction chs arbitrary: s)
  case Nil
  then show ?case by (simp add: same_but_chans_def)
next
  case (Cons doneCh chs)
  show ?case
  proof (cases doneCh)
    case None
    with Cons show ?thesis by simp
  next
    case (Some i)
    show ?thesis
    proof (cases "try_send (chans s i)")
      case (Inl f)
      with Cons.prems Some show ?thesis by simp
    next
      case (Inr r)
      show ?thesis
      proof (cases r)
        case None
        with Cons Some Inr show ?thesis by simp
      next
        case (Some ch')
        let ?s1 = "emit (ChanSend i) (s\<lparr>chans := (chans s)(i := ch')\<rparr>)"
        from Cons.prems \<open>doneCh = Some i\<close> Inr Some
        have "signalDone chs ?s1 = Inr s'" by simp
        from Cons.IH [OF this] obtain sent where
          "same_but_chans ?s1 s'" "trace s' = trace ?s1 @ map ChanSend sent"
          by blast
        then have "same_but_chans s s'" "trace s' = trace s @ map ChanSend (i # sent)"
          by (simp_all add: same_but_chans_def)
        then show ?thesis by blast
      qed
    qed
  qed
qed

lemma signalDone_ok:
  assumes "\<forall>i. Some i \<in> set chs \<longrightarrow> \<not> ch_closed (chans s i)"
  shows "\<exists>s' sent. signalDone chs s = Inr s'
            \<and> trace s' = trace s @ map ChanSend sent
            \<and> (\<forall>i. count_list sent i \<le> count_list chs (Some i))
            \<and> (\<forall>i. Some i \<in> set chs \<and> ready (chans s i) \<longrightarrow> i \<in> set sent)
            \<and> (\<forall>i. i \<in> set sent \<longrightarrow> ready (chans s i))"
  using assms
proof (induction chs arbitrary: s)
  case Nil
  then show ?case by simp
next
  case (Cons doneCh chs)
  show ?case
  proof (cases doneCh)
    case None
    from Cons.prems have "\<forall>i. Some i \<in> set chs \<longrightarrow> \<not> ch_closed (chans s i)" by simp
    from Cons.IH [OF this] None show ?thesis by auto
  next
    case (Some i)
    from Cons.prems Some have open_i: "\<not> ch_closed (chans s i)" by simp
    from try_send_cases [OF open_i] show ?thesis
    proof (elim disjE conjE exE)
      assume nr: "\<not> ready (chans s i)" and ts: "try_send (chans s i) = Inr None"
      from Cons.prems have "\<forall>i. Some i \<in> set chs \<longrightarrow> \<not> ch_closed (chans s i)" by simp
      from Cons.IH [OF this] obtain s' sent where r: "signalDone chs s = Inr s'"
        "trace s' = trace s @ map ChanSend sent"
        "\<forall>i. count_list sent i \<le> count_list chs (Some i)"
        "\<forall>i. Some i \<in> set chs \<and> ready (chans s i) \<longrightarrow> i \<in> set sent"
        "\<forall>i. i \<in> set sent \<longrightarrow> ready (chans s i)"
        by blast
      have "\<forall>j. count_list sent j \<le> count_list (doneCh # chs) (Some j)"
        using r(3) Some by (simp add: le_SucI)
      moreover have "\<forall>j. Some j \<in> set (doneCh # chs) \<and> ready (chans s j) \<longrightarrow> j \<in> set sent"
        using r(4) Some nr by auto
      moreover have "signalDone (doneCh # chs) s = Inr s'" using Some ts r(1) by simp
      ultimately show ?thesis using r(2,5) by blast
    next
      fix ch'
      assume rd: "ready (chans s i)" and ts: "try_send (chans s i) = Inr (Some ch')"
        and op: "\<not> ch_closed ch'"
      let ?s1 = "emit (ChanSend i) (s\<lparr>chans := (chans s)(i := ch')\<rparr>)"
      from Cons.prems op have "\<forall>j. Some j \<in> set chs \<longrightarrow> \<not> ch_closed (chans ?s1 j)" by simp
      from Cons.IH [OF this] obtain s' sent where r: "signalDone chs ?s1 = Inr s'"
        "trace s' = trace ?s1 @ map ChanSend sent"
        "\<forall>j. count_list sent j \<le> count_list chs (Some j)"
        "\<forall>j. Some j \<in> set chs \<and> ready (chans ?s1 j) \<longrightarrow> j \<in> set sent"
        "\<forall>j. j \<in> set sent \<longrightarrow> ready (chans ?s1 j)"
        by blast
      have a: "signalDone (doneCh # chs) s = Inr s'" using Some ts r(1) by simp
      have c: "trace s' = trace s @ map ChanSend (i # sent)" using r(2) by simp
      have d: "\<forall>j. count_list (i # sent) j \<le> count_list (doneCh # chs) (Some j)"
        using r(3) Some by simp
      have e: "\<forall>j. Some j \<in> set (doneCh # chs) \<and> ready (chans s j) \<longrightarrow> j \<in> set (i # sent)"
      proof (intro allI impI)
        fix j assume h: "Some j \<in> set (doneCh # chs) \<and> ready (chans s j)"
        show "j \<in> set (i # sent)"
        proof (cases "j = i")
          case True then show ?thesis by simp
        next
          case False
          with h Some have "Some j \<in> set chs \<and> ready (chans ?s1 j)" by simp
          with r(4) show ?thesis by simp
        qed
      qed
      have f: "\<forall>j. j \<in> set (i # sent) \<longrightarrow> ready (chans s j)"
      proof (intro allI impI)
        fix j assume h: "j \<in> set (i # sent)"
        show "ready (chans s j)"
        proof (cases "j = i")
          case True with rd show ?thesis by simp
        next
          case False
          with h have "j \<in> set sent" by simp
          with r(5) have "ready (chans ?s1 j)" by blast
          with False show ?thesis by simp
        qed
      qed
      from a c d e f show ?thesis by blast
    qed
  qed
qed

subsection \<open>onStop\<close>

lemma onStop_frame:
  assumes "onStop env s = Inr (r, s')"
  shows "raceEvent s' = None \<and> same_addressing s s' \<and> cfn s' = cfn s \<and> ctx s' = ctx s
         \<and> cmd s' = cmd s \<and> contexts s' = contexts s \<and> notifyDoneChs s' = notifyDoneChs s
         \<and> udpServerConn s' = map_option (\<lambda>c. c\<lparr>conn_closed := True\<rparr>) (udpServerConn s)
         \<and> (\<exists>evs. trace s' = trace s @ Logged Debug_ServerStopped None # evs
                  \<and> list_all stop_event evs \<and> list_all quiet_event evs)
         \<and> (extraProcesses s' = [] \<or> extraProcesses s' = extraProcesses s)"
proof -
  let ?s1 = "(logf Debug_ServerStopped None s)\<lparr>raceEvent := None\<rparr>"
  let ?s2 = "case udpServerConn s of None \<Rightarrow> ?s1
             | Some c \<Rightarrow> emit (UDPClose c) (?s1\<lparr>udpServerConn := Some (c\<lparr>conn_closed := True\<rparr>)\<rparr>)"
  obtain e where close: "stopUDPListener env ?s1 = Inr (e, ?s2)"
    by (cases "udpServerConn s") (simp_all add: stopUDPListener_nil stopUDPListener_conn)
  have s2: "raceEvent ?s2 = None" "same_addressing s ?s2" "cfn ?s2 = cfn s" "ctx ?s2 = ctx s"
    "cmd ?s2 = cmd s" "contexts ?s2 = contexts s" "notifyDoneChs ?s2 = notifyDoneChs s"
    "udpServerConn ?s2 = map_option (\<lambda>c. c\<lparr>conn_closed := True\<rparr>) (udpServerConn s)"
    "trace ?s2 = trace s @ Logged Debug_ServerStopped None
                   # (case udpServerConn s of None \<Rightarrow> [] | Some c \<Rightarrow> [UDPClose c])"
    "extraProcesses ?s2 = extraProcesses s"
    by (simp_all add: same_addressing_def split: option.splits)
  have ev2: "list_all stop_event (case udpServerConn s of None \<Rightarrow> [] | Some c \<Rightarrow> [UDPClose c])"
    "list_all quiet_event (case udpServerConn s of None \<Rightarrow> [] | Some c \<Rightarrow> [UDPClose c])"
    by (simp_all split: option.splits)
  show ?thesis
  proof (cases e)
    case (Some err)
    with assms close have "s' = ?s2" by (simp add: onStop_def Let_def)
    with s2 ev2 show ?thesis by blast
  next
    case None
    with assms close obtain s3 where s3: "stopChildProcesses env ?s2 = Inr s3"
      and sig: "signalDone (notifyDoneChs s3) s3 = Inr s'"
      by (auto simp: onStop_def Let_def split: sum.splits)
    from stopChildProcesses_frame [OF s3] obtain kills where
      k: "killProcesses env (extraProcesses ?s2) = Inr kills"
      and s3eq: "s3 = ?s2\<lparr>extraProcesses := [], trace := trace ?s2 @ [WrapperStop] @ kills\<rparr>"
      by blast
    from signalDone_frame [OF sig] obtain sent where
      same: "same_but_chans s3 s'" and tr: "trace s' = trace s3 @ map ChanSend sent"
      by blast
    have kev: "list_all stop_event kills" "list_all quiet_event kills"
      using killProcesses_events [OF k]
      by (auto simp: list_all_iff kill_event_stop_event kill_event_quiet_event)
    have sev: "list_all stop_event (map ChanSend sent)" "list_all quiet_event (map ChanSend sent)"
      by (simp_all add: list_all_iff)
    have f: "raceEvent s' = None" "same_addressing s s'" "cfn s' = cfn s" "ctx s' = ctx s"
      "cmd s' = cmd s" "contexts s' = contexts s" "notifyDoneChs s' = notifyDoneChs s"
      "udpServerConn s' = map_option (\<lambda>c. c\<lparr>conn_closed := True\<rparr>) (udpServerConn s)"
      "extraProcesses s' = []"
      using same s2(1-8) unfolding s3eq by (simp_all add: same_but_chans_def same_addressing_def)
    have "trace s' = trace s @ Logged Debug_ServerStopped None
             # ((case udpServerConn s of None \<Rightarrow> [] | Some c \<Rightarrow> [UDPClose c])
                @ [WrapperStop] @ kills @ map ChanSend sent)"
      using tr s2(9) unfolding s3eq by simp
    moreover have "list_all stop_event
        ((case udpServerConn s of None \<Rightarrow> [] | Some c \<Rightarrow> [UDPClose c])
                @ [WrapperStop] @ kills @ map ChanSend sent)"
      using ev2 kev sev by simp
    moreover have "list_all quiet_event
        ((case udpServerConn s of None \<Rightarrow> [] | Some c \<Rightarrow> [UDPClose c])
                @ [WrapperStop] @ kills @ map ChanSend sent)"
      using ev2 kev sev by simp
    ultimately show ?thesis using f by blast
  qed
qed

lemma onStop_ok:
  assumes close: "\<forall>c. udpServerConn s = Some c \<longrightarrow> udp_Close_result env c = None"
    and procs: "\<forall>c \<in> set (extraProcesses s). Process c \<noteq> None"
    and opened: "\<forall>i. Some i \<in> set (notifyDoneChs s) \<longrightarrow> \<not> ch_closed (chans s i)"
  shows "\<exists>s' kills sent.
           onStop env s = Inr (None, s')
         \<and> extraProcesses s' = []
         \<and> trace s' = trace s @ [Logged Debug_ServerStopped None]
                        @ (case udpServerConn s of None \<Rightarrow> [] | Some c \<Rightarrow> [UDPClose c])
                        @ [WrapperStop] @ kills @ map ChanSend sent
         \<and> list_all kill_event kills
         \<and> (\<forall>c \<in> set (extraProcesses s). Kill (Process c) \<in> set kills)
         \<and> (\<forall>pid. Release pid \<in> set kills \<longleftrightarrow>
               (\<exists>c \<in> set (extraProcesses s). Process c = Some pid \<and> kill env (Some pid) = None))
         \<and> (\<forall>i. count_list sent i \<le> count_list (notifyDoneChs s) (Some i))
         \<and> (\<forall>i. Some i \<in> set (notifyDoneChs s) \<and> ready (chans s i) \<longrightarrow> i \<in> set sent)
         \<and> (\<forall>i. i \<in> set sent \<longrightarrow> ready (chans s i))"
proof -
  let ?s1 = "(logf Debug_ServerStopped None s)\<lparr>raceEvent := None\<rparr>"
  let ?s2 = "case udpServerConn s of None \<Rightarrow> ?s1
             | Some c \<Rightarrow> emit (UDPClose c) (?s1\<lparr>udpServerConn := Some (c\<lparr>conn_closed := True\<rparr>)\<rparr>)"
  have cl: "stopUDPListener env ?s1 = Inr (None, ?s2)"
    using close by (cases "udpServerConn s") (simp_all add: stopUDPListener_nil stopUDPListener_conn)
  have s2: "extraProcesses ?s2 = extraProcesses s" "notifyDoneChs ?s2 = notifyDoneChs s"
    "chans ?s2 = chans s"
    "trace ?s2 = trace s @ [Logged Debug_ServerStopped None]
                   @ (case udpServerConn s of None \<Rightarrow> [] | Some c \<Rightarrow> [UDPClose c])"
    by (simp_all split: option.splits)
  from killProcesses_ok [OF procs, of env] obtain kills where k:
    "killProcesses env (extraProcesses s) = Inr kills"
    "\<forall>c \<in> set (extraProcesses s). Kill (Process c) \<in> set kills"
    "\<forall>pid. Release pid \<in> set kills \<longleftrightarrow>
       (\<exists>c \<in> set (extraProcesses s). Process c = Some pid \<and> kill env (Some pid) = None)"
    by blast
  let ?s3 = "?s2\<lparr>extraProcesses := [], trace := trace ?s2 @ [WrapperStop] @ kills\<rparr>"
  have s3: "stopChildProcesses env ?s2 = Inr ?s3"
    using k(1) s2(1) by (simp add: stopChildProcesses_def)
  have "\<forall>i. Some i \<in> set (notifyDoneChs ?s3) \<longrightarrow> \<not> ch_closed (chans ?s3 i)"
    using opened s2(2,3) by simp
  from signalDone_ok [OF this] obtain s4 sent where s4:
    "signalDone (notifyDoneChs ?s3) ?s3 = Inr s4"
    "trace s4 = trace ?s3 @ map ChanSend sent"
    "\<forall>i. count_list sent i \<le> count_list (notifyDoneChs ?s3) (Some i)"
    "\<forall>i. Some i \<in> set (notifyDoneChs ?s3) \<and> ready (chans ?s3 i) \<longrightarrow> i \<in> set sent"
    "\<forall>i. i \<in> set sent \<longrightarrow> ready (chans ?s3 i)"
    by blast
  have run: "onStop env s = Inr (None, s4)"
    using cl s3 s4(1) by (simp add: onStop_def Let_def)
  have f3: "extraProcesses s4 = []"
    using signalDone_frame [OF s4(1)] by (simp add: same_but_chans_def)
  have f4: "trace s4 = trace s @ [Logged Debug_ServerStopped None]
                        @ (case udpServerConn s of None \<Rightarrow> [] | Some c \<Rightarrow> [UDPClose c])
                        @ [WrapperStop] @ kills @ map ChanSend sent"
    using s4(2) s2(4) by simp
  have f5: "\<forall>i. count_list sent i \<le> count_list (notifyDoneChs s) (Some i)"
    using s4(3) s2(2) by simp
  have f6: "\<forall>i. Some i \<in> set (notifyDoneChs s) \<and> ready (chans s i) \<longrightarrow> i \<in> set sent"
    using s4(4) s2(2,3) by simp
  have f7: "\<forall>i. i \<in> set sent \<longrightarrow> ready (chans s i)"
    using s4(5) s2(3) by simp
  from run f3 f4 killProcesses_events [OF k(1)] k(2) k(3) f5 f6 f7 show ?thesis by blast
qed




section \<open>Evaluating the example\<close>

lemma fresh_fields:
  "udpServerConn (NewAssettoServerProcess chs) = None"
  "extraProcesses (NewAssettoServerProcess chs) = []"
  "notifyDoneChs (NewAssettoServerProcess chs) = []"
  "trace (NewAssettoServerProcess chs) = []"
  "raceEvent (NewAssettoServerProcess chs) = None"
  "cfn (NewAssettoServerProcess chs) = None"
  by (simp_all add: NewAssettoServerProcess_def)

lemmas model_defs =
  Start_def loop_start_def setAddressing_def IsRunning_def NewAssettoServerProcess_def
  startRaceEvent_def logf_def emit_def buildCommand_def startUDPListener_def Let_def
  startAuxiliaries_def startStracker_def startRunOnStart_def startPlugin_def
  startChildProcess_def startCommand_def NotifyDone_def Stop_def Stop_timeout_def Stop_end_def
  loop_run_def onStop_def stopUDPListener_def udp_Close_def stopChildProcesses_def
  try_send_def SendUDPMessage_def cmd_Run_started_def strings_Contains_def
  Restart_def contentManagerWrapper_goroutine_def returned_def after_def new_events_def

lemma example_conn:
  "udpServerConn example_session =
     Some \<lparr>conn_host = ''127.0.0.1'', conn_port = 9000, conn_localPort = 9001,
           conn_forward = True, conn_forwardingAddress = [], conn_forwardListenPort = 0,
           conn_closed = False\<rparr>"
  by (simp add: example_session_def example_calls_def example_env_def example_chans_def model_defs)

lemma example_fields:
  "raceEvent example_session = Some 7"
  "notifyDoneChs example_session = [Some 1, Some 0]"
  "chans example_session = example_chans"
  "cfn example_session = Some (WithCancel 0)"
  "udpPluginAddress example_session = ''127.0.0.1:9000''"
  "extraProcesses example_session =
     [\<lparr>Path = ''/opt/legacy'', Args = [''--flag''], Dir = ''/opt'', Stdout = PluginsOutput,
       Stderr = PluginsOutput, Process = Some 4242, CmdContext = Background\<rparr>]"
  by (simp_all add: example_session_def example_calls_def example_env_def example_chans_def model_defs)

section \<open>Stop without a session\<close>

text \<open>
  C1: calling \<^verbatim>\<open>Stop()\<close> when no \<^verbatim>\<open>Start\<close> has ever run is not safe in the code: the
  first statement of \<^verbatim>\<open>Stop\<close> after the timers is the call \<^verbatim>\<open>sp.cfn()\<close>, and \<^verbatim>\<open>cfn\<close>
  is nil until \<^verbatim>\<open>startRaceEvent\<close> assigns it. On a supervisor fresh from
  \<^verbatim>\<open>NewAssettoServerProcess\<close> the call panics, in every environment and whatever the
  \<^verbatim>\<open>select\<close> would have done.
\<close>

theorem Stop_on_fresh_supervisor_panics:
  "Stop env (NewAssettoServerProcess chs) sched = Inl NilPointerDereference"
  by (simp add: Stop_def NewAssettoServerProcess_def)

section \<open>The relay at teardown\<close>

text \<open>
  C8: closing the UDP relay during teardown is safe when the relay was never
  opened. With the field \<^verbatim>\<open>udpServerConn\<close> nil, \<^verbatim>\<open>Close\<close> (as the spec requires it:
  a nil check instead of a fault) returns nil, \<^verbatim>\<open>stopUDPListener\<close> returns nil and
  leaves the state as it was, and \<^verbatim>\<open>onStop\<close> runs to its end without a panic and
  without an error (given that every tracked child has a process handle and no
  registered waiter channel is closed, the two other places where \<^verbatim>\<open>onStop\<close> can
  panic).
\<close>

theorem Close_of_unopened_relay:
  assumes "udpServerConn s = None"
    and "\<forall>c \<in> set (extraProcesses s). Process c \<noteq> None"
    and "\<forall>i. Some i \<in> set (notifyDoneChs s) \<longrightarrow> \<not> ch_closed (chans s i)"
  shows "udp_Close env (udpServerConn s) = Inr (None, None)
       \<and> stopUDPListener env s = Inr (None, s)
       \<and> (\<exists>s'. onStop env s = Inr (None, s') \<and> udpServerConn s' = None \<and> \<not> IsRunning s')"
proof -
  have a: "udp_Close env (udpServerConn s) = Inr (None, None)"
    using assms(1) by (simp add: udp_Close_def)
  have b: "stopUDPListener env s = Inr (None, s)"
    using assms(1) by (rule stopUDPListener_nil)
  have "\<forall>c. udpServerConn s = Some c \<longrightarrow> udp_Close_result env c = None"
    using assms(1) by simp
  from onStop_ok [OF this assms(2,3)] obtain s' where r: "onStop env s = Inr (None, s')"
    by blast
  from onStop_frame [OF r] assms(1) have "udpServerConn s' = None" "\<not> IsRunning s'"
    by (simp_all add: IsRunning_def)
  with a b r show ?thesis by blast
qed

theorem Close_of_unopened_relay_witness:
  "udpServerConn (NewAssettoServerProcess example_chans) = None
   \<and> stopUDPListener example_env (NewAssettoServerProcess example_chans)
       = Inr (None, NewAssettoServerProcess example_chans)
   \<and> returned (onStop example_env (NewAssettoServerProcess example_chans)) = Inr None
   \<and> after udpServerConn (onStop example_env (NewAssettoServerProcess example_chans)) = Some None
   \<and> after trace (onStop example_env (NewAssettoServerProcess example_chans))
       = Some [Logged Debug_ServerStopped None, WrapperStop]"
proof -
  let ?s = "NewAssettoServerProcess example_chans"
  have a: "udpServerConn ?s = None" by (simp add: fresh_fields)
  have b: "\<forall>c \<in> set (extraProcesses ?s). Process c \<noteq> None" by (simp add: fresh_fields)
  have c: "\<forall>i. Some i \<in> set (notifyDoneChs ?s) \<longrightarrow> \<not> ch_closed (chans ?s i)"
    by (simp add: fresh_fields)
  from Close_of_unopened_relay [OF a b c, of example_env] a
  show ?thesis
    by (simp add: returned_def after_def onStop_def stopUDPListener_def udp_Close_def
        stopChildProcesses_def NewAssettoServerProcess_def logf_def emit_def Let_def)
qed

text \<open>
  C10: \<^verbatim>\<open>onStop\<close> does not reset \<^verbatim>\<open>udpServerConn\<close> to nil. After the teardown of a
  session whose relay was opened, the field still holds the handle, now closed;
  \<^verbatim>\<open>SendUDPMessage\<close> then passes its nil check, attempts the send on that closed
  handle and returns whatever the send returns, never
  \<^verbatim>\<open>ErrNoOpenUDPConnection\<close>. The check answers \<^verbatim>\<open>ErrNoOpenUDPConnection\<close> only
  while no relay was ever opened, as on a fresh supervisor.
\<close>

theorem SendUDPMessage_after_teardown:
  assumes "udpServerConn s = Some c"
    and "onStop env s = Inr (r, s')"
  shows "udpServerConn s' = Some (c\<lparr>conn_closed := True\<rparr>)
       \<and> SendUDPMessage env s' message
           = (map_option External (udp_SendMessage env (c\<lparr>conn_closed := True\<rparr>) message),
              emit (UDPSend (c\<lparr>conn_closed := True\<rparr>) message) s')
       \<and> fst (SendUDPMessage env s' message) \<noteq> Some ErrNoOpenUDPConnection
       \<and> SendUDPMessage env (NewAssettoServerProcess chs) message
           = (Some ErrNoOpenUDPConnection, NewAssettoServerProcess chs)"
proof -
  from onStop_frame [OF assms(2)] assms(1)
  have conn: "udpServerConn s' = Some (c\<lparr>conn_closed := True\<rparr>)" by simp
  then have send: "SendUDPMessage env s' message
           = (map_option External (udp_SendMessage env (c\<lparr>conn_closed := True\<rparr>) message),
              emit (UDPSend (c\<lparr>conn_closed := True\<rparr>) message) s')"
    by (simp add: SendUDPMessage_def)
  have ne: "fst (SendUDPMessage env s' message) \<noteq> Some ErrNoOpenUDPConnection"
    unfolding send by (cases "udp_SendMessage env (c\<lparr>conn_closed := True\<rparr>) message") simp_all
  have fresh: "SendUDPMessage env (NewAssettoServerProcess chs) message
           = (Some ErrNoOpenUDPConnection, NewAssettoServerProcess chs)"
    by (simp add: SendUDPMessage_def fresh_fields)
  from conn send ne fresh show ?thesis by blast
qed

theorem SendUDPMessage_after_teardown_witness:
  "returned (onStop example_env example_session) = Inr None
   \<and> after udpServerConn (onStop example_env example_session)
       = Some (Some \<lparr>conn_host = ''127.0.0.1'', conn_port = 9000, conn_localPort = 9001,
                     conn_forward = True, conn_forwardingAddress = [],
                     conn_forwardListenPort = 0, conn_closed = True\<rparr>)
   \<and> map_sum id fst (run example_env example_session
                        [ProcessExit None, CallSendUDPMessage 5])
       = Inr [None, Some (External ''use of closed network connection'')]"
proof -
  obtain r s' where run: "onStop example_env example_session = Inr (r, s')"
    by (simp add: example_session_def example_calls_def example_env_def example_chans_def model_defs)
  note sent = SendUDPMessage_after_teardown [OF example_conn run, of 5 example_chans]
  have c2: "after udpServerConn (onStop example_env example_session)
       = Some (Some \<lparr>conn_host = ''127.0.0.1'', conn_port = 9000, conn_localPort = 9001,
                     conn_forward = True, conn_forwardingAddress = [],
                     conn_forwardListenPort = 0, conn_closed = True\<rparr>)"
    using run sent by (simp add: after_def)
  have c1: "returned (onStop example_env example_session) = Inr None"
    by (simp add: example_session_def example_calls_def example_env_def example_chans_def model_defs)
  have c3: "map_sum id fst (run example_env example_session
                        [ProcessExit None, CallSendUDPMessage 5])
       = Inr [None, Some (External ''use of closed network connection'')]"
    by (simp add: example_session_def example_calls_def example_env_def example_chans_def model_defs)
  from c1 c2 c3 show ?thesis by blast
qed

section \<open>The teardown cycle\<close>






section \<open>Quiet steps\<close>

lemma quiet_refl [simp]: "quiet s s"
  by (simp add: quiet_def)

lemma quiet_trans: "quiet s t \<Longrightarrow> quiet t u \<Longrightarrow> quiet s u"
  by (auto simp: quiet_def intro: extends_trans)

lemma quiet_emit: "quiet_event e \<Longrightarrow> quiet s t \<Longrightarrow> quiet s (emit e t)"
  by (simp add: quiet_def extends_emit has_handles_def)

lemma quiet_logf: "quiet_event (Logged l x) \<Longrightarrow> quiet s t \<Longrightarrow> quiet s (logf l x t)"
  by (simp add: quiet_def extends_logf has_handles_def)

lemma quiet_same:
  "quiet s t \<Longrightarrow> raceEvent t' = raceEvent t \<Longrightarrow> trace t' = trace t
     \<Longrightarrow> extraProcesses t' = extraProcesses t \<Longrightarrow> quiet s t'"
  by (auto simp: quiet_def has_handles_def intro: extends_same_trace)

lemma startCommand_quiet:
  assumes "startCommand env s wd path c = (r, s')"
  shows "quiet s s'"
proof -
  obtain pluginDir s1 where d:
    "(case filepath_Abs env (filepath_Dir env path) of
        Inl e \<Rightarrow> (wd, logf Warn_NoPluginDirectory (Some (External e)) s)
      | Inr d \<Rightarrow> (d, s)) = (pluginDir, s1)"
    by (cases "filepath_Abs env (filepath_Dir env path)") simp_all
  then have q1: "quiet s s1"
    by (cases "filepath_Abs env (filepath_Dir env path)") (auto intro: quiet_logf)
  let ?c1 = "c\<lparr>Stdout := PluginsOutput, Stderr := PluginsOutput, Dir := pluginDir\<rparr>"
  show ?thesis
  proof (cases "cmd_Start env ?c1")
    case (Inl e)
    with assms d have "s' = s1" by (simp add: startCommand_def Let_def)
    with q1 show ?thesis by simp
  next
    case (Inr pid)
    let ?s2 = "s1\<lparr>extraProcesses := extraProcesses s1 @ [?c1\<lparr>Process := Some pid\<rparr>]\<rparr>"
    from Inr assms d have "s' = emit (CmdStart ?c1 pid) ?s2"
      by (simp add: startCommand_def Let_def)
    moreover have "quiet s ?s2"
      using q1 by (auto simp: quiet_def extends_def has_handles_def)
    ultimately show ?thesis by (simp add: quiet_emit)
  qed
qed

lemma startPlugin_quiet:
  "startPlugin env s wd plugin = (r, s') \<Longrightarrow> quiet s s'"
  unfolding startPlugin_def
  by (auto split: sum.splits dest: startCommand_quiet)

lemma startChildProcess_quiet:
  "startChildProcess env s wd command = (r, s') \<Longrightarrow> quiet s s'"
  unfolding startChildProcess_def
  by (auto split: sum.splits list.splits dest: startCommand_quiet)

lemma startPlugins_quiet: "quiet s (startPlugins env s wd ps)"
proof (induction ps arbitrary: s)
  case Nil
  show ?case by simp
next
  case (Cons p ps)
  obtain r s1 where p: "startPlugin env s wd p = (r, s1)" by (cases "startPlugin env s wd p")
  then have q: "quiet s s1" by (rule startPlugin_quiet)
  show ?case
  proof (cases r)
    case None
    with p have "startPlugins env s wd (p # ps) = startPlugins env s1 wd ps" by simp
    with q Cons.IH [of s1] show ?thesis by (auto intro: quiet_trans)
  next
    case (Some err)
    let ?s2 = "logf Error_CouldNotRunExtraCommand (Some err) s1"
    from Some p have "startPlugins env s wd (p # ps) = startPlugins env ?s2 wd ps" by simp
    moreover from q have "quiet s ?s2" by (simp add: quiet_logf)
    ultimately show ?thesis using Cons.IH [of ?s2] by (auto intro: quiet_trans)
  qed
qed

lemma startCommands_quiet: "quiet s (startCommands env s wd cs)"
proof (induction cs arbitrary: s)
  case Nil
  show ?case by simp
next
  case (Cons c cs)
  obtain r s1 where p: "startChildProcess env s wd c = (r, s1)"
    by (cases "startChildProcess env s wd c")
  then have q: "quiet s s1" by (rule startChildProcess_quiet)
  show ?case
  proof (cases r)
    case None
    with p have "startCommands env s wd (c # cs) = startCommands env s1 wd cs" by simp
    with q Cons.IH [of s1] show ?thesis by (auto intro: quiet_trans)
  next
    case (Some err)
    let ?s2 = "logf Error_CouldNotRunExtraCommand (Some err) s1"
    from Some p have "startCommands env s wd (c # cs) = startCommands env ?s2 wd cs" by simp
    moreover from q have "quiet s ?s2" by (simp add: quiet_logf)
    ultimately show ?thesis using Cons.IH [of ?s2] by (auto intro: quiet_trans)
  qed
qed

lemma startRunOnStart_quiet: "quiet s (startRunOnStart env s wd)"
proof (cases "length (config_Server_RunOnStart env) > 0")
  case True
  have "quiet s (logf Warn_RunOnStartDeprecated None s)" by (simp add: quiet_logf)
  from this startCommands_quiet have
    "quiet s (startCommands env (logf Warn_RunOnStartDeprecated None s) wd
               (config_Server_RunOnStart env))"
    by (rule quiet_trans)
  with True show ?thesis by (simp add: startRunOnStart_def)
next
  case False
  then show ?thesis by (simp add: startRunOnStart_def)
qed

lemma startStracker_quiet:
  assumes "startStracker env s wd so = Inr (r, s')"
  shows "quiet s s'"
proof (cases "store_LoadStrackerOptions env")
  case (Inl e)
  with assms show ?thesis by (simp add: startStracker_def)
next
  case (Inr st)
  show ?thesis
  proof (cases "EnableStracker st \<and> IsStrackerInstalled env")
    case False
    with assms Inr show ?thesis by (auto simp: startStracker_def)
  next
    case on: True
    show ?thesis
    proof (cases "(UDPPluginLocalPort so \<ge> 0 \<and> UDPPluginAddress so \<noteq> [])
                \<or> strings_Contains (UDPPluginAddress so) (CHR '':'')")
      case False
      with assms Inr on have "s' = logf Error_CheckServerConfiguration
             (Some ErrStrackerConfigurationRequiresUDPPluginConfiguration) s"
        by (auto simp: startStracker_def)
      then show ?thesis by (simp add: quiet_logf)
    next
      case addr: True
      with assms Inr on obtain part0 part1 parts where
        sp: "strings_Split (CHR '':'') (UDPPluginAddress so) = part0 # part1 # parts"
        by (auto simp: startStracker_def split: list.splits)
      let ?st1 = "st\<lparr>ACPlugin_SendPort := UDPPluginLocalPort so,
                      ACPlugin_ReceivePort := formValueAsInt env part1\<rparr>"
      let ?s1 = "emit (StrackerWrite ?st1) s"
      have q1: "quiet s ?s1" by (simp add: quiet_emit)
      show ?thesis
      proof (cases "strackerOptions_Write env ?st1")
        case (Some e)
        with assms Inr on addr sp have "s' = ?s1"
          by (auto simp: startStracker_def Let_def)
        with q1 show ?thesis by simp
      next
        case None
        let ?plugin = "\<lparr>Executable = StrackerExecutablePath env,
                         Arguments = [''--stracker_ini'',
                           filepath_Join env (StrackerFolderPath env)
                             (strackerConfigIniFilename env)]\<rparr>"
        obtain r2 s2 where pl: "startPlugin env ?s1 wd ?plugin = (r2, s2)"
          by (cases "startPlugin env ?s1 wd ?plugin")
        then have q2: "quiet ?s1 s2" by (rule startPlugin_quiet)
        from assms Inr on addr sp None pl
        have "s' = s2 \<or> s' = logf Info_StartedStracker None s2"
          by (auto simp: startStracker_def Let_def split: option.splits)
        with q1 q2 show ?thesis by (auto intro: quiet_trans quiet_logf)
      qed
    qed
  qed
qed

lemma startAuxiliaries_quiet:
  assumes "startAuxiliaries env s wd = Inr (r, s')"
  shows "quiet s s'"
proof (cases "store_LoadServerOptions env")
  case (Inl e)
  with assms show ?thesis by (simp add: startAuxiliaries_def)
next
  case (Inr so)
  let ?s1 = "if EnableContentManagerWrapper so = 1 \<and> ContentManagerWrapperPort so > 0
             then emit (GoWrapperStart (ContentManagerWrapperPort so)) s else s"
  have q1: "quiet s ?s1" by (simp add: quiet_emit)
  from assms Inr obtain r2 s2 where st: "startStracker env ?s1 wd so = Inr (r2, s2)"
    by (auto simp: startAuxiliaries_def Let_def split: sum.splits)
  then have q2: "quiet ?s1 s2" by (rule startStracker_quiet)
  show ?thesis
  proof (cases r2)
    case (Some err)
    with assms Inr st have "s' = s2" by (simp add: startAuxiliaries_def Let_def)
    with q1 q2 show ?thesis by (auto intro: quiet_trans)
  next
    case None
    with assms Inr st have "s' = startRunOnStart env
                               (startPlugins env s2 wd (config_Server_Plugins env)) wd"
      by (simp add: startAuxiliaries_def Let_def)
    moreover have "quiet s2 (startRunOnStart env
                               (startPlugins env s2 wd (config_Server_Plugins env)) wd)"
      using startPlugins_quiet startRunOnStart_quiet by (rule quiet_trans)
    ultimately show ?thesis using q1 q2 by (auto intro: quiet_trans)
  qed
qed

lemma startUDPListener_quiet:
  assumes "startUDPListener env s = (r, s')"
  shows "quiet s s'"
proof (cases "net_SplitHostPort env (udpPluginAddress s)")
  case (Inl e)
  with assms show ?thesis by (simp add: startUDPListener_def)
next
  case (Inr hp)
  obtain host portStr where hp: "hp = (host, portStr)" by (cases hp)
  show ?thesis
  proof (cases "strconv_ParseInt env portStr")
    case (Inl e)
    with assms Inr hp show ?thesis by (simp add: startUDPListener_def)
  next
    case port: (Inr port)
    show ?thesis
    proof (cases "udp_NewServerClient env host port (udpPluginLocalPort s) True
                       (forwardingAddress s) (forwardListenPort s)")
      case (Some e)
      with assms Inr hp port have "s' = s\<lparr>udpServerConn := None\<rparr>"
        by (simp add: startUDPListener_def)
      then show ?thesis by (simp add: quiet_def extends_def has_handles_def)
    next
      case None
      with assms Inr hp port obtain conn where
        "s' = emit (UDPOpen conn) (s\<lparr>udpServerConn := Some conn\<rparr>)"
        by (auto simp: startUDPListener_def Let_def)
      moreover have "quiet s (s\<lparr>udpServerConn := Some conn\<rparr>)"
        by (simp add: quiet_def extends_def has_handles_def)
      ultimately show ?thesis by (simp add: quiet_emit)
    qed
  qed
qed


section \<open>Launches and teardowns in the trace\<close>

lemma active_after_append:
  "active_after ad (xs @ ys) = active_after (active_after ad xs) ys"
  by (induction xs arbitrary: ad) simp_all

lemma quiet_event_neutral:
  "quiet_event e \<Longrightarrow> \<not> is_launch e \<and> \<not> is_teardown e \<and> announced e = None"
  by (cases e) (auto split: logline.splits)

lemma active_after_quiet: "list_all quiet_event evs \<Longrightarrow> active_after ad evs = ad"
  by (induction evs arbitrary: ad) (simp_all add: quiet_event_neutral)

lemma quiet_no_teardown: "list_all quiet_event evs \<Longrightarrow> filter is_teardown evs = []"
  by (induction evs) (simp_all add: quiet_event_neutral)

lemma quiet_no_launch: "list_all quiet_event evs \<Longrightarrow> filter is_launch evs = []"
  by (induction evs) (simp_all add: quiet_event_neutral)

lemma stop_event_no_launch: "stop_event e \<Longrightarrow> \<not> is_launch e"
  by (cases e) auto

lemma stop_event_no_spawn: "stop_event e \<Longrightarrow> \<not> is_spawn e"
  by (cases e) auto

lemma stop_event_not_announced: "stop_event e \<Longrightarrow> announced e = None"
  by (cases e) auto

lemma stop_no_launch: "list_all stop_event evs \<Longrightarrow> filter is_launch evs = []"
  by (induction evs) (simp_all add: stop_event_no_launch)

lemma active_after_stop:
  "list_all stop_event evs \<Longrightarrow>
     active_after (a, d) evs = (a \<and> filter is_teardown evs = [], d)"
proof (induction evs arbitrary: a)
  case Nil
  show ?case by simp
next
  case (Cons e evs)
  then have e: "\<not> is_launch e" "announced e = None" and rest: "list_all stop_event evs"
    by (simp_all add: stop_event_no_launch stop_event_not_announced)
  show ?case
  proof (cases "is_teardown e")
    case True
    with e Cons.IH [OF rest, of False] show ?thesis by simp
  next
    case False
    with e Cons.IH [OF rest, of a] show ?thesis by simp
  qed
qed

lemma tracks_refl [simp]: "tracks s s"
  unfolding tracks_def by (rule exI [where x = "[]"]) simp

lemma tracks_trans:
  assumes "tracks s t" and "tracks t u"
  shows "tracks s u"
proof -
  from assms(1) obtain e1 where t1: "trace t = trace s @ e1"
    and a1: "\<forall>d. IsRunning t = fst (active_after (IsRunning s, d) e1)"
    unfolding tracks_def by blast
  from assms(2) obtain e2 where t2: "trace u = trace t @ e2"
    and a2: "\<forall>d. IsRunning u = fst (active_after (IsRunning t, d) e2)"
    unfolding tracks_def by blast
  have "\<forall>d. IsRunning u = fst (active_after (IsRunning s, d) (e1 @ e2))"
  proof
    fix d
    obtain a' d' where p: "active_after (IsRunning s, d) e1 = (a', d')"
      by (cases "active_after (IsRunning s, d) e1")
    with a1 have "a' = IsRunning t" by (metis fst_conv)
    with p a2 show "IsRunning u = fst (active_after (IsRunning s, d) (e1 @ e2))"
      by (simp add: active_after_append)
  qed
  moreover from t1 t2 have "trace u = trace s @ e1 @ e2" by simp
  ultimately show ?thesis unfolding tracks_def by blast
qed

lemma quiet_tracks:
  assumes "quiet s t"
  shows "tracks s t"
proof -
  from assms obtain evs where t: "trace t = trace s @ evs" and q: "list_all quiet_event evs"
    and r: "raceEvent t = raceEvent s"
    by (auto simp: quiet_def extends_def)
  from q r have "\<forall>d. IsRunning t = fst (active_after (IsRunning s, d) evs)"
    by (simp add: active_after_quiet IsRunning_def)
  with t show ?thesis unfolding tracks_def by blast
qed

lemma session_active_tracks:
  assumes "tracks s t" and "IsRunning s = session_active (trace s)"
  shows "IsRunning t = session_active (trace t)"
proof -
  from assms(1) obtain evs where t: "trace t = trace s @ evs"
    and a: "\<forall>d. IsRunning t = fst (active_after (IsRunning s, d) evs)"
    unfolding tracks_def by blast
  obtain a0 d0 where p: "active_after (False, False) (trace s) = (a0, d0)"
    by (cases "active_after (False, False) (trace s)")
  with assms(2) have "a0 = IsRunning s" by (simp add: session_active_def)
  with p a t show ?thesis by (simp add: session_active_def active_after_append)
qed

subsection \<open>Steps of a stop\<close>

lemma stops_refl [simp]: "stops 0 s s"
proof -
  have "trace s = trace s @ [] \<and> list_all stop_event [] \<and> length (filter is_teardown []) = 0"
    by simp
  then show ?thesis unfolding stops_def same_addressing_def by blast
qed

lemma stops_trans:
  assumes "stops n s t" and "stops m t u"
  shows "stops (n + m) s u"
proof -
  from assms(1) obtain e1 where 1: "trace t = trace s @ e1" "list_all stop_event e1"
    "length (filter is_teardown e1) = n" "same_addressing s t"
    "IsRunning t = (IsRunning s \<and> n = 0)" "has_handles s \<longrightarrow> has_handles t"
    unfolding stops_def by blast
  from assms(2) obtain e2 where 2: "trace u = trace t @ e2" "list_all stop_event e2"
    "length (filter is_teardown e2) = m" "same_addressing t u"
    "IsRunning u = (IsRunning t \<and> m = 0)" "has_handles t \<longrightarrow> has_handles u"
    unfolding stops_def by blast
  have "trace u = trace s @ (e1 @ e2) \<and> list_all stop_event (e1 @ e2)
        \<and> length (filter is_teardown (e1 @ e2)) = n + m"
    using 1(1-3) 2(1-3) by simp
  moreover have "same_addressing s u" using 1(4) 2(4) by (simp add: same_addressing_def)
  moreover have "IsRunning u = (IsRunning s \<and> n + m = 0)" using 1(5) 2(5) by auto
  moreover have "has_handles s \<longrightarrow> has_handles u" using 1(6) 2(6) by blast
  ultimately show ?thesis unfolding stops_def by blast
qed

lemma stops_facts:
  assumes "stops n s s'"
  shows "extends stop_event s s'" and "same_addressing s s'"
    and "IsRunning s' = (IsRunning s \<and> n = 0)" and "has_handles s \<longrightarrow> has_handles s'"
    and "teardowns s s' = n" and "launches s s' = 0"
proof -
  from assms obtain evs where 1: "trace s' = trace s @ evs" "list_all stop_event evs"
    "length (filter is_teardown evs) = n" "same_addressing s s'"
    "IsRunning s' = (IsRunning s \<and> n = 0)" "has_handles s \<longrightarrow> has_handles s'"
    unfolding stops_def by blast
  from 1(1,2) show "extends stop_event s s'" unfolding extends_def by blast
  from 1(4) show "same_addressing s s'" .
  from 1(5) show "IsRunning s' = (IsRunning s \<and> n = 0)" .
  from 1(6) show "has_handles s \<longrightarrow> has_handles s'" .
  from 1(1,3) show "teardowns s s' = n" by (simp add: teardowns_def new_events_def)
  from 1(1) stop_no_launch [OF 1(2)] show "launches s s' = 0"
    by (simp add: launches_def new_events_def)
qed

lemma stops_tracks:
  assumes "stops n s s'"
  shows "tracks s s'"
proof -
  from assms obtain evs where 1: "trace s' = trace s @ evs" "list_all stop_event evs"
    "length (filter is_teardown evs) = n" "IsRunning s' = (IsRunning s \<and> n = 0)"
    unfolding stops_def by blast
  have "\<forall>d. IsRunning s' = fst (active_after (IsRunning s, d) evs)"
    using active_after_stop [OF 1(2)] 1(3,4) by auto
  with 1(1) show ?thesis unfolding tracks_def by blast
qed

lemma quiet_stops:
  assumes "quiet s t" and "extends stop_event s t" and "same_addressing s t"
  shows "stops 0 s t"
proof -
  from assms(1) obtain evs where t: "trace t = trace s @ evs" and q: "list_all quiet_event evs"
    and r: "raceEvent t = raceEvent s" and h: "has_handles s \<longrightarrow> has_handles t"
    by (auto simp: quiet_def extends_def)
  from assms(2) t have e: "list_all stop_event evs" by (auto simp: extends_def)
  from q have n: "length (filter is_teardown evs) = 0" by (simp add: quiet_no_teardown)
  from r have "IsRunning t = (IsRunning s \<and> (0::nat) = 0)" by (simp add: IsRunning_def)
  with t e n h assms(3) show ?thesis unfolding stops_def by blast
qed

subsection \<open>Teardown and Stop\<close>

lemma onStop_stops:
  assumes "onStop env s = Inr (r, s')"
  shows "stops 1 s s'"
proof -
  from onStop_frame [OF assms] obtain evs where
    r: "raceEvent s' = None" and a: "same_addressing s s'"
    and tr: "trace s' = trace s @ Logged Debug_ServerStopped None # evs"
    and evs: "list_all stop_event evs" "list_all quiet_event evs"
    and x: "extraProcesses s' = [] \<or> extraProcesses s' = extraProcesses s"
    by blast
  have "trace s' = trace s @ (Logged Debug_ServerStopped None # evs)
        \<and> list_all stop_event (Logged Debug_ServerStopped None # evs)
        \<and> length (filter is_teardown (Logged Debug_ServerStopped None # evs)) = 1"
    using tr evs by (simp add: quiet_no_teardown)
  moreover have "IsRunning s' = (IsRunning s \<and> (1::nat) = 0)" using r by (simp add: IsRunning_def)
  moreover have "has_handles s \<longrightarrow> has_handles s'" using x by (auto simp: has_handles_def)
  ultimately show ?thesis using a unfolding stops_def by blast
qed

lemma loop_run_stops:
  assumes "loop_run env s err = Inr (r, s')"
  shows "stops 1 s s'"
proof -
  let ?t = "if err \<noteq> None then logf Warn_ProcessEndedWithError err s else s"
  from assms have o: "onStop env ?t = Inr (r, s')" by (simp add: loop_run_def)
  have q: "quiet s ?t" by (simp add: quiet_logf)
  have e: "extends stop_event s ?t" by (simp add: extends_logf)
  have a: "same_addressing s ?t" by (simp add: same_addressing_def)
  from stops_trans [OF quiet_stops [OF q e a] onStop_stops [OF o]] show ?thesis by simp
qed

lemma loop_run_tracks:
  assumes "loop_run env s err = Inr (r, s')"
  shows "tracks s s'" and "extends stop_event s s'" and "\<not> IsRunning s'"
    and "same_addressing s s'"
  using stops_tracks [OF loop_run_stops [OF assms]] stops_facts [OF loop_run_stops [OF assms]]
  by simp_all

lemma loop_run_not_timeout:
  assumes "loop_run env s err = Inr (r, s')"
  shows "r \<noteq> Some ErrServerProcessTimeout"
  using assms unfolding loop_run_def onStop_def Let_def stopUDPListener_def udp_Close_def
  by (auto split: option.splits sum.splits prod.splits)

lemma Stop_timeout_frame:
  assumes "Stop_timeout env s = Inr s'"
  shows "quiet s s'" and "extends stop_event s s'" and "same_addressing s s'"
proof -
  from assms obtain c where c: "cmd s = Some c"
    by (auto simp: Stop_timeout_def Let_def split: option.splits)
  let ?s2 = "emit (Kill (Process c)) (logf Debug_ManualKill None s)"
  from assms c have s': "s' = ?s2 \<or> (\<exists>e. s' = logf Error_CouldNotForciblyKill e ?s2)"
    by (auto simp: Stop_timeout_def Let_def split: option.splits)
  have "quiet s ?s2" by (simp add: quiet_emit quiet_logf)
  with s' show "quiet s s'" by (auto intro: quiet_logf)
  have "extends stop_event s ?s2" by (simp add: extends_emit extends_logf)
  with s' show "extends stop_event s s'" by (auto intro: extends_logf)
  from s' show "same_addressing s s'" by (auto simp: same_addressing_def)
qed

lemma Stop_timeout_stops: "Stop_timeout env s = Inr s' \<Longrightarrow> stops 0 s s'"
  by (rule quiet_stops) (erule Stop_timeout_frame)+

lemma same_addressing_trans:
  "same_addressing s t \<Longrightarrow> same_addressing t u \<Longrightarrow> same_addressing s u"
  by (simp add: same_addressing_def)

lemma Stop_end_stops:
  assumes "Stop_end env s w = Inr (r, s')"
  shows "stops (wait_exits w) s s'" and "r \<noteq> Some ErrServerProcessTimeout \<longrightarrow> \<not> IsRunning s'"
proof -
  have "stops (wait_exits w) s s' \<and> (r \<noteq> Some ErrServerProcessTimeout \<longrightarrow> \<not> IsRunning s')"
  proof (cases w)
    case FullTimeout
    with assms show ?thesis by (simp add: Stop_end_def)
  next
    case (Stopped err)
    with assms have lr: "loop_run env s err = Inr (r, s')" by (simp add: Stop_end_def)
    from loop_run_stops [OF lr] loop_run_tracks(3) [OF lr] Stopped show ?thesis by simp
  qed
  then show "stops (wait_exits w) s s'"
    and "r \<noteq> Some ErrServerProcessTimeout \<longrightarrow> \<not> IsRunning s'"
    by simp_all
qed

lemma Stop_wait_stops:
  "Stop_wait env s sched = Inr (r, s') \<Longrightarrow>
     stops (exits_in sched) s s' \<and> (r \<noteq> Some ErrServerProcessTimeout \<longrightarrow> \<not> IsRunning s')"
proof (induction sched arbitrary: s)
  case (Direct w)
  then have "Stop_end env s w = Inr (r, s')" by simp
  from Stop_end_stops [OF this] show ?case by simp
next
  case (AfterTimeout w)
  then obtain s2 where t: "Stop_timeout env s = Inr s2" and en: "Stop_end env s2 w = Inr (r, s')"
    by (auto split: sum.splits)
  from stops_trans [OF Stop_timeout_stops [OF t] Stop_end_stops(1) [OF en]]
    Stop_end_stops(2) [OF en]
  show ?case by simp
next
  case (MissedExit err sched)
  from MissedExit.prems obtain dropped s2 where lr: "loop_run env s err = Inr (dropped, s2)"
    and rest: "Stop_wait env s2 sched = Inr (r, s')"
    by (auto split: sum.splits prod.splits)
  from MissedExit.IH [OF rest] have ih: "stops (exits_in sched) s2 s'"
    and nt: "r \<noteq> Some ErrServerProcessTimeout \<longrightarrow> \<not> IsRunning s'"
    by simp_all
  from stops_trans [OF loop_run_stops [OF lr] ih] nt show ?case by simp
next
  case (AfterTimeoutMissed err w)
  then obtain s2 dropped s3 where t: "Stop_timeout env s = Inr s2"
    and lr: "loop_run env s2 err = Inr (dropped, s3)"
    and en: "Stop_end env s3 w = Inr (r, s')"
    by (auto split: sum.splits prod.splits)
  from stops_trans [OF stops_trans [OF Stop_timeout_stops [OF t] loop_run_stops [OF lr]]
                       Stop_end_stops(1) [OF en]]
    Stop_end_stops(2) [OF en]
  show ?case by simp
qed

lemma Stop_stops:
  assumes "Stop env s sched = Inr (r, s')"
  shows "stops (exits_in sched) s s'" and "r \<noteq> Some ErrServerProcessTimeout \<longrightarrow> \<not> IsRunning s'"
proof -
  from assms obtain c where c: "cfn s = Some c"
    by (auto simp: Stop_def split: option.splits)
  let ?s1 = "emit (ContextCancel c) s"
  from assms c have w: "Stop_wait env ?s1 sched = Inr (r, s')" by (simp add: Stop_def)
  have "stops 0 s ?s1"
    by (rule quiet_stops) (simp_all add: quiet_emit extends_emit same_addressing_def)
  from stops_trans [OF this] Stop_wait_stops [OF w]
  show "stops (exits_in sched) s s'"
    and "r \<noteq> Some ErrServerProcessTimeout \<longrightarrow> \<not> IsRunning s'"
    by simp_all
qed

lemma Stop_frame:
  assumes "Stop env s sched = Inr (r, s')"
  shows "tracks s s'" and "extends stop_event s s'" and "same_addressing s s'"
    and "IsRunning s' = (IsRunning s \<and> teardowns s s' = 0)"
    and "r \<noteq> Some ErrServerProcessTimeout \<longrightarrow> \<not> IsRunning s'"
    and "teardowns s s' = exits_in sched"
    and "has_handles s \<longrightarrow> has_handles s'"
    and "launches s s' = 0"
proof -
  note st = Stop_stops [OF assms]
  from stops_tracks [OF st(1)] show "tracks s s'" .
  from stops_facts [OF st(1)] show "extends stop_event s s'" and "same_addressing s s'"
    and "teardowns s s' = exits_in sched" and "has_handles s \<longrightarrow> has_handles s'"
    and "launches s s' = 0"
    by simp_all
  from stops_facts(3,5) [OF st(1)] show "IsRunning s' = (IsRunning s \<and> teardowns s s' = 0)"
    by simp
  from st(2) show "r \<noteq> Some ErrServerProcessTimeout \<longrightarrow> \<not> IsRunning s'" .
qed


subsection \<open>Launch\<close>

lemma startRaceEvent_cases:
  assumes "startRaceEvent env s event = Inr (r, s')"
  shows "\<exists>evs1. list_all quiet_event evs1 \<and> (has_handles s \<longrightarrow> has_handles s')
           \<and> ((r \<noteq> None \<and> raceEvent s' = raceEvent s
                \<and> trace s' = trace s @ Logged (Info_StartingServerProcess event) None # evs1)
             \<or> (raceEvent s' = event
                \<and> (\<exists>c evs2. trace s' = trace s @ Logged (Info_StartingServerProcess event) None
                                          # evs1 @ GoCmdRun c # evs2
                      \<and> list_all quiet_event evs2)))"
proof -
  let ?s1 = "logf (Info_StartingServerProcess event) None s"
  let ?path = "if filepath_IsAbs env (config_Steam_ExecutablePath env)
             then config_Steam_ExecutablePath env
             else filepath_Join env (ServerInstallPath env) (config_Steam_ExecutablePath env)"
  let ?c = "WithCancel (contexts ?s1)"
  let ?mainCmd = "(buildCommand ?c ?path [])
                      \<lparr>Dir := ServerInstallPath env,
                       Stdout := LogBufferSink, Stderr := LogBufferSink\<rparr>"
  let ?s2 = "?s1\<lparr>ctx := Some ?c, cfn := Some ?c, contexts := Suc (contexts ?s1),
                  cmd := Some ?mainCmd\<rparr>"
  have q2: "quiet ?s1 ?s2" by (rule quiet_same [OF quiet_refl]) simp_all
  obtain e3 s3 where u: "startUDPListener env ?s2 = (e3, s3)"
    by (cases "startUDPListener env ?s2")
  from q2 startUDPListener_quiet [OF u] have q3: "quiet ?s1 s3" by (rule quiet_trans)
  then obtain evs1 where t1: "trace s3 = trace ?s1 @ evs1" and e1: "list_all quiet_event evs1"
    and r3: "raceEvent s3 = raceEvent s" and h3: "has_handles s \<longrightarrow> has_handles s3"
    by (auto simp: quiet_def extends_def has_handles_def)
  from t1 have t3: "trace s3 = trace s @ Logged (Info_StartingServerProcess event) None # evs1"
    by simp
  show ?thesis
  proof (cases e3)
    case (Some err)
    with assms u have "r = Some err" "s' = s3" by (simp_all add: startRaceEvent_def Let_def)
    with e1 r3 h3 t3 show ?thesis by blast
  next
    case None
    show ?thesis
    proof (cases "os_Getwd env")
      case (Inl e)
      with assms u None have "r = Some (External e)" "s' = s3"
        by (simp_all add: startRaceEvent_def Let_def)
      with e1 r3 h3 t3 show ?thesis by blast
    next
      case (Inr wd)
      let ?s4 = "emit (GoCmdRun ?mainCmd) (s3\<lparr>raceEvent := event\<rparr>)"
      from assms u None Inr have aux: "startAuxiliaries env ?s4 wd = Inr (r, s')"
        by (simp add: startRaceEvent_def Let_def)
      from startAuxiliaries_quiet [OF aux] obtain evs2 where
        r: "raceEvent s' = event" and t2: "trace s' = trace ?s4 @ evs2"
        and e2: "list_all quiet_event evs2" and h4: "has_handles ?s4 \<longrightarrow> has_handles s'"
        by (auto simp: quiet_def extends_def)
      have "has_handles ?s4 = has_handles s3" by (simp add: has_handles_def)
      with h3 h4 have h: "has_handles s \<longrightarrow> has_handles s'" by blast
      from t3 t2 have "trace s' = trace s @ Logged (Info_StartingServerProcess event) None
                                   # evs1 @ GoCmdRun ?mainCmd # evs2" by simp
      with r e1 e2 h show ?thesis by blast
    qed
  qed
qed

lemma startRaceEvent_tracks:
  assumes "startRaceEvent env s event = Inr (r, s')"
  shows "tracks s s'" and "has_handles s \<longrightarrow> has_handles s'" and "launches s s' \<le> 1"
    and "r = None \<longrightarrow> raceEvent s' = event \<and> launches s s' = 1"
    and "teardowns s s' = 0"
proof -
  from startRaceEvent_cases [OF assms] obtain evs1 where e1: "list_all quiet_event evs1"
    and h: "has_handles s \<longrightarrow> has_handles s'"
    and c: "(r \<noteq> None \<and> raceEvent s' = raceEvent s
                \<and> trace s' = trace s @ Logged (Info_StartingServerProcess event) None # evs1)
             \<or> (raceEvent s' = event
                \<and> (\<exists>c evs2. trace s' = trace s @ Logged (Info_StartingServerProcess event) None
                                          # evs1 @ GoCmdRun c # evs2
                      \<and> list_all quiet_event evs2))"
    by blast
  have "tracks s s' \<and> launches s s' \<le> 1 \<and> (r = None \<longrightarrow> raceEvent s' = event \<and> launches s s' = 1)
        \<and> teardowns s s' = 0"
    using c
  proof (elim disjE conjE exE)
    assume r: "r \<noteq> None" "raceEvent s' = raceEvent s"
      and t: "trace s' = trace s @ Logged (Info_StartingServerProcess event) None # evs1"
    have "\<forall>d. IsRunning s' = fst (active_after (IsRunning s, d)
                 (Logged (Info_StartingServerProcess event) None # evs1))"
      using r(2) e1 by (simp add: IsRunning_def active_after_quiet)
    with t have "tracks s s'" unfolding tracks_def by blast
    moreover from t e1 have "launches s s' = 0" "teardowns s s' = 0"
      by (simp_all add: launches_def teardowns_def new_events_def quiet_no_launch
          quiet_no_teardown)
    ultimately show ?thesis using r(1) by simp
  next
    fix c evs2
    assume r: "raceEvent s' = event"
      and t: "trace s' = trace s @ Logged (Info_StartingServerProcess event) None
                           # evs1 @ GoCmdRun c # evs2"
      and e2: "list_all quiet_event evs2"
    have "\<forall>d. IsRunning s' = fst (active_after (IsRunning s, d)
                 (Logged (Info_StartingServerProcess event) None # evs1 @ GoCmdRun c # evs2))"
      using r e1 e2 by (simp add: IsRunning_def active_after_append active_after_quiet)
    with t have "tracks s s'" unfolding tracks_def by blast
    moreover from t e1 e2 have "launches s s' = 1" "teardowns s s' = 0"
      by (simp_all add: launches_def teardowns_def new_events_def quiet_no_launch
          quiet_no_teardown)
    ultimately show ?thesis using r by simp
  qed
  with h show "tracks s s'" and "has_handles s \<longrightarrow> has_handles s'" and "launches s s' \<le> 1"
    and "r = None \<longrightarrow> raceEvent s' = event \<and> launches s s' = 1"
    and "teardowns s s' = 0"
    by simp_all
qed

lemma startRaceEvent_nil:
  assumes "startRaceEvent env s event = Inr (None, s')"
  shows "raceEvent s' = event"
  using startRaceEvent_tracks(4) [OF assms] by simp

lemma setAddressing_quiet: "quiet s (setAddressing s a p f q)"
  by (simp add: setAddressing_def quiet_def extends_def has_handles_def)

lemma launches_trans:
  assumes "extends P s t" and "extends Q t u"
  shows "launches s u = launches s t + launches t u"
    and "teardowns s u = teardowns s t + teardowns t u"
proof -
  from assms obtain e1 e2 where "trace t = trace s @ e1" "trace u = trace t @ e2"
    unfolding extends_def by blast
  then show "launches s u = launches s t + launches t u"
    and "teardowns s u = teardowns s t + teardowns t u"
    by (simp_all add: launches_def teardowns_def new_events_def)
qed

lemma tracks_extends: "tracks s t \<Longrightarrow> extends (\<lambda>e. True) s t"
  by (auto simp: tracks_def extends_def list_all_iff)

lemma Start_frame:
  assumes "Start env s event a p f q sched = Inr (r, s')"
  shows "tracks s s'" and "has_handles s \<longrightarrow> has_handles s'" and "launches s s' \<le> 1"
    and "r = None \<longrightarrow> raceEvent s' = event \<and> launches s s' = 1"
proof -
  let ?s0 = "setAddressing s a p f q"
  from assms have ls: "loop_start env ?s0 event sched = Inr (r, s')" by (simp add: Start_def)
  have q0: "quiet s ?s0" by (rule setAddressing_quiet)
  have t0: "trace ?s0 = trace s" by (simp add: setAddressing_def)
  have h0: "has_handles ?s0 = has_handles s" by (simp add: setAddressing_def has_handles_def)
  have l0: "launches s s' = launches ?s0 s'" by (simp add: launches_def new_events_def t0)
  have "tracks ?s0 s' \<and> (has_handles ?s0 \<longrightarrow> has_handles s') \<and> launches ?s0 s' \<le> 1
        \<and> (r = None \<longrightarrow> raceEvent s' = event \<and> launches ?s0 s' = 1)"
  proof (cases "IsRunning ?s0")
    case False
    with ls have "startRaceEvent env ?s0 event = Inr (r, s')" by (simp add: loop_start_def)
    from startRaceEvent_tracks [OF this] show ?thesis by simp
  next
    case True
    with ls obtain r1 s1 where st: "Stop env ?s0 sched = Inr (r1, s1)"
      by (auto simp: loop_start_def split: sum.splits)
    note sf = Stop_frame [OF st]
    show ?thesis
    proof (cases r1)
      case (Some err)
      with ls True st have "s' = s1" "r = Some err" by (simp_all add: loop_start_def)
      with sf show ?thesis by simp
    next
      case None
      with ls True st have sr: "startRaceEvent env s1 event = Inr (r, s')"
        by (simp add: loop_start_def)
      note lf = startRaceEvent_tracks [OF sr]
      from launches_trans(1) [OF sf(2) tracks_extends [OF lf(1)]] sf(8)
      have "launches ?s0 s' = launches s1 s'" by simp
      with sf(1,7) lf show ?thesis by (auto intro: tracks_trans)
    qed
  qed
  with quiet_tracks [OF q0] h0 l0
  show "tracks s s'" and "has_handles s \<longrightarrow> has_handles s'" and "launches s s' \<le> 1"
    and "r = None \<longrightarrow> raceEvent s' = event \<and> launches s s' = 1"
    by (auto intro: tracks_trans)
qed

lemma Restart_frame:
  assumes "Restart env s sched sched' = Inr (r, s')"
  shows "tracks s s'" and "has_handles s \<longrightarrow> has_handles s'"
proof -
  have "tracks s s' \<and> (has_handles s \<longrightarrow> has_handles s')"
  proof (cases "IsRunning s")
    case False
    with assms have "Start env s (raceEvent s) (udpPluginAddress s) (udpPluginLocalPort s)
                       (forwardingAddress s) (forwardListenPort s) sched' = Inr (r, s')"
      by (simp add: Restart_def Let_def)
    from Start_frame(1,2) [OF this] show ?thesis by simp
  next
    case True
    with assms obtain r1 s1 where st: "Stop env s sched = Inr (r1, s1)"
      by (auto simp: Restart_def Let_def split: sum.splits)
    note sf = Stop_frame [OF st]
    show ?thesis
    proof (cases r1)
      case (Some err)
      with assms True st have "s' = s1" by (simp add: Restart_def Let_def)
      with sf show ?thesis by simp
    next
      case None
      with assms True st have
        "Start env s1 (raceEvent s) (udpPluginAddress s) (udpPluginLocalPort s)
           (forwardingAddress s) (forwardListenPort s) sched' = Inr (r, s')"
        by (simp add: Restart_def Let_def)
      from Start_frame(1,2) [OF this] sf(1,7) show ?thesis by (auto intro: tracks_trans)
    qed
  qed
  then show "tracks s s'" and "has_handles s \<longrightarrow> has_handles s'" by simp_all
qed

lemma step_tracks:
  assumes "step env s c = Inr (r, s')"
  shows "tracks s s'" and "has_handles s \<longrightarrow> has_handles s'"
proof -
  have "tracks s s' \<and> (has_handles s \<longrightarrow> has_handles s')"
  proof (cases c)
    case (CallStart event a p f q sched)
    with assms have "Start env s event a p f q sched = Inr (r, s')" by simp
    from Start_frame(1,2) [OF this] show ?thesis by simp
  next
    case (CallStop sched)
    with assms have "Stop env s sched = Inr (r, s')" by simp
    from Stop_frame(1,7) [OF this] show ?thesis by simp
  next
    case (ProcessStarted pid)
    with assms have "s' = cmd_Run_started s pid" by simp
    then have "quiet s s'" by (simp add: cmd_Run_started_def quiet_def extends_def has_handles_def)
    then show ?thesis by (simp add: quiet_tracks) (simp add: quiet_def)
  next
    case (ProcessExit err)
    with assms have "loop_run env s err = Inr (r, s')" by simp
    from stops_tracks [OF loop_run_stops [OF this]] stops_facts(4) [OF loop_run_stops [OF this]]
    show ?thesis by simp
  next
    case (CallNotifyDone ch)
    with assms have "s' = NotifyDone s ch" by simp
    then have "quiet s s'" by (simp add: NotifyDone_def quiet_def extends_def has_handles_def)
    then show ?thesis by (simp add: quiet_tracks) (simp add: quiet_def)
  next
    case (CallSendUDPMessage m)
    with assms have "quiet s s'"
      by (auto simp: SendUDPMessage_def split: option.splits intro: quiet_emit)
    then show ?thesis by (simp add: quiet_tracks) (simp add: quiet_def)
  next
    case (CallRestart sched sched')
    with assms have "Restart env s sched sched' = Inr (r, s')" by simp
    from Restart_frame [OF this] show ?thesis by simp
  next
    case (WrapperGoroutine port)
    with assms have "s' = contentManagerWrapper_goroutine env s port" by simp
    then have "quiet s s'"
      by (auto simp: contentManagerWrapper_goroutine_def split: option.splits intro: quiet_logf)
    then show ?thesis by (simp add: quiet_tracks) (simp add: quiet_def)
  next
    case (WaiterActs i ch)
    with assms have "s' = s\<lparr>chans := (chans s)(i := ch)\<rparr>" by simp
    then have "quiet s s'" by (simp add: quiet_def extends_def has_handles_def)
    then show ?thesis by (simp add: quiet_tracks) (simp add: quiet_def)
  qed
  then show "tracks s s'" and "has_handles s \<longrightarrow> has_handles s'" by simp_all
qed

lemma run_tracks:
  assumes "run env s calls = Inr (rs, s')"
  shows "tracks s s' \<and> (has_handles s \<longrightarrow> has_handles s')"
  using assms
proof (induction calls arbitrary: s rs)
  case Nil
  then show ?case by simp
next
  case (Cons c calls)
  from Cons.prems obtain r s1 rs1 where st: "step env s c = Inr (r, s1)"
    and rn: "run env s1 calls = Inr (rs1, s')"
    by (auto split: sum.splits prod.splits)
  from step_tracks [OF st] Cons.IH [OF rn] show ?case by (auto intro: tracks_trans)
qed


section \<open>IsRunning over sequences of calls\<close>

text \<open>
  C7, as the code has it. For every sequence of calls on one supervisor that runs
  without a panic, \<^verbatim>\<open>IsRunning()\<close> is true iff the most recent launch of the main
  process was for a Session Descriptor that is not nil and no teardown has run
  since that launch: the last launch or teardown in the trace decides. A launch is
  not a \<^verbatim>\<open>Start\<close> that succeeded. In the state reached, a \<^verbatim>\<open>Start\<close> that returns
  nil has launched once, and \<^verbatim>\<open>IsRunning()\<close> is then true iff its descriptor is not
  nil (\<^verbatim>\<open>Restart\<close> starts an idle supervisor with a nil descriptor); a teardown
  leaves \<^verbatim>\<open>IsRunning()\<close> false; after a \<^verbatim>\<open>Stop\<close>, \<^verbatim>\<open>IsRunning()\<close> is true iff it was
  true before and no teardown ran during the \<^verbatim>\<open>Stop\<close>, and it is false whenever the
  \<^verbatim>\<open>Stop\<close> returns anything but the timeout error. A \<^verbatim>\<open>Stop\<close> that returns the
  timeout error has either left \<^verbatim>\<open>IsRunning()\<close> as it was, or missed the result
  of a teardown that ran meanwhile.
\<close>

theorem IsRunning_follows_launch_and_teardown:
  assumes "run env (NewAssettoServerProcess chs) calls = Inr (rs, s)"
  shows "IsRunning s = session_active (trace s)
       \<and> (\<forall>event a p f q sched s2.
             Start env s event a p f q sched = Inr (None, s2) \<longrightarrow>
               IsRunning s2 = (event \<noteq> None) \<and> launches s s2 = 1)
       \<and> (\<forall>err r s2. loop_run env s err = Inr (r, s2) \<longrightarrow> \<not> IsRunning s2)
       \<and> (\<forall>sched r s2. Stop env s sched = Inr (r, s2) \<longrightarrow>
             IsRunning s2 = (IsRunning s \<and> teardowns s s2 = 0)
             \<and> (r \<noteq> Some ErrServerProcessTimeout \<longrightarrow> \<not> IsRunning s2))"
proof -
  have init: "IsRunning (NewAssettoServerProcess chs)
          = session_active (trace (NewAssettoServerProcess chs))"
    by (simp add: IsRunning_def session_active_def fresh_fields)
  from run_tracks [OF assms] have "tracks (NewAssettoServerProcess chs) s" by simp
  from this init have a: "IsRunning s = session_active (trace s)"
    by (rule session_active_tracks)
  have b: "\<forall>event a p f q sched s2.
             Start env s event a p f q sched = Inr (None, s2) \<longrightarrow>
               IsRunning s2 = (event \<noteq> None) \<and> launches s s2 = 1"
  proof (intro allI impI)
    fix event a p f q sched s2
    assume "Start env s event a p f q sched = Inr (None, s2)"
    from Start_frame(4) [OF this]
    show "IsRunning s2 = (event \<noteq> None) \<and> launches s s2 = 1"
      by (simp add: IsRunning_def)
  qed
  have c: "\<forall>err r s2. loop_run env s err = Inr (r, s2) \<longrightarrow> \<not> IsRunning s2"
    by (blast dest: loop_run_tracks(3))
  have d: "\<forall>sched r s2. Stop env s sched = Inr (r, s2) \<longrightarrow>
             IsRunning s2 = (IsRunning s \<and> teardowns s s2 = 0)
             \<and> (r \<noteq> Some ErrServerProcessTimeout \<longrightarrow> \<not> IsRunning s2)"
  proof (intro allI impI)
    fix sched r s2
    assume "Stop env s sched = Inr (r, s2)"
    from Stop_frame(4,5) [OF this]
    show "IsRunning s2 = (IsRunning s \<and> teardowns s s2 = 0)
             \<and> (r \<noteq> Some ErrServerProcessTimeout \<longrightarrow> \<not> IsRunning s2)"
      by simp
  qed
  from a b c d show ?thesis by blast
qed

section \<open>Start while a session is running\<close>

text \<open>
  C6, as the code has it. \<^verbatim>\<open>Start\<close> stores the new addressing before it hands
  the event to the control loop. When a session is running and the implicit
  \<^verbatim>\<open>Stop\<close> fails, \<^verbatim>\<open>Start\<close> returns that error and nothing is spawned (no main
  process, no plugin, no wrapper goroutine), but the four UDP addressing fields
  hold the values of this call, not those of the prior session.
\<close>

theorem Start_when_implicit_Stop_fails:
  assumes "IsRunning s"
    and "Stop env (setAddressing s a p f q) sched = Inr (Some err, s')"
  shows "Start env s event a p f q sched = Inr (Some err, s')
       \<and> udpPluginAddress s' = a \<and> udpPluginLocalPort s' = p
       \<and> forwardingAddress s' = f \<and> forwardListenPort s' = q
       \<and> \<not> list_ex is_spawn (new_events s s')"
proof -
  let ?s0 = "setAddressing s a p f q"
  from assms(1) have "IsRunning ?s0" by (simp add: IsRunning_def setAddressing_def)
  with assms(2) have a: "Start env s event a p f q sched = Inr (Some err, s')"
    by (simp add: Start_def loop_start_def)
  from Stop_frame(3) [OF assms(2)]
  have b: "udpPluginAddress s' = a \<and> udpPluginLocalPort s' = p
       \<and> forwardingAddress s' = f \<and> forwardListenPort s' = q"
    by (simp add: same_addressing_def setAddressing_def)
  from Stop_frame(2) [OF assms(2)] obtain evs where
    "trace s' = trace ?s0 @ evs" "list_all stop_event evs"
    by (auto simp: extends_def)
  then have "new_events s s' = evs" "list_all stop_event evs"
    by (simp_all add: new_events_def setAddressing_def)
  then have c: "\<not> list_ex is_spawn (new_events s s')"
    by (auto simp: list_ex_iff list_all_iff dest: stop_event_no_spawn)
  from a b c show ?thesis by blast
qed


lemmas example_defs =
  example_session_def example_calls_def example_env_def example_chans_def

theorem IsRunning_follows_launch_and_teardown_witness:
  "returned (run example_env (NewAssettoServerProcess example_chans)
       [CallNotifyDone (Some 1),
        CallStart (Some 7) ''127.0.0.1:9000'' 9001 [] 0 (Direct FullTimeout),
        ProcessStarted 4000,
        CallStop (AfterTimeout (Stopped (Some (External ''signal: killed'')))),
        CallRestart (Direct FullTimeout) (Direct FullTimeout)])
     = Inr [None, None, None, None, None]
   \<and> after IsRunning (run example_env (NewAssettoServerProcess example_chans)
       [CallNotifyDone (Some 1),
        CallStart (Some 7) ''127.0.0.1:9000'' 9001 [] 0 (Direct FullTimeout),
        ProcessStarted 4000,
        CallStop (AfterTimeout (Stopped (Some (External ''signal: killed'')))),
        CallRestart (Direct FullTimeout) (Direct FullTimeout)])
     = Some False
   \<and> map_option session_active (after trace (run example_env (NewAssettoServerProcess example_chans)
       [CallNotifyDone (Some 1),
        CallStart (Some 7) ''127.0.0.1:9000'' 9001 [] 0 (Direct FullTimeout),
        ProcessStarted 4000,
        CallStop (AfterTimeout (Stopped (Some (External ''signal: killed'')))),
        CallRestart (Direct FullTimeout) (Direct FullTimeout)]))
     = Some False
   \<and> after IsRunning (run example_env (NewAssettoServerProcess example_chans)
       [CallNotifyDone (Some 1),
        CallStart (Some 7) ''127.0.0.1:9000'' 9001 [] 0 (Direct FullTimeout)])
     = Some True
   \<and> map_option session_active (after trace (run example_env (NewAssettoServerProcess example_chans)
       [CallNotifyDone (Some 1),
        CallStart (Some 7) ''127.0.0.1:9000'' 9001 [] 0 (Direct FullTimeout)]))
     = Some True
   \<and> returned (Stop example_env example_session
                 (AfterTimeoutMissed (Some (External ''signal: killed'')) FullTimeout))
     = Inr (Some ErrServerProcessTimeout)
   \<and> after IsRunning (Stop example_env example_session
                 (AfterTimeoutMissed (Some (External ''signal: killed'')) FullTimeout))
     = Some False
   \<and> after (teardowns example_session) (Stop example_env example_session
                 (AfterTimeoutMissed (Some (External ''signal: killed'')) FullTimeout))
     = Some 1"
proof -
  let ?calls = "[CallNotifyDone (Some 1),
        CallStart (Some 7) ''127.0.0.1:9000'' 9001 [] 0 (Direct FullTimeout),
        ProcessStarted 4000,
        CallStop (AfterTimeout (Stopped (Some (External ''signal: killed'')))),
        CallRestart (Direct FullTimeout) (Direct FullTimeout)]"
  let ?calls2 = "[CallNotifyDone (Some 1),
        CallStart (Some 7) ''127.0.0.1:9000'' 9001 [] 0 (Direct FullTimeout)]"
  let ?r = "run example_env (NewAssettoServerProcess example_chans) ?calls"
  let ?r2 = "run example_env (NewAssettoServerProcess example_chans) ?calls2"
  let ?st = "Stop example_env example_session
                 (AfterTimeoutMissed (Some (External ''signal: killed'')) FullTimeout)"
  have c1: "returned ?r = Inr [None, None, None, None, None]"
    by (simp add: example_defs model_defs)
  then obtain s where run: "?r = Inr ([None, None, None, None, None], s)"
    by (cases ?r) (auto simp: returned_def)
  note inv = IsRunning_follows_launch_and_teardown [OF run]
  have c2: "after IsRunning ?r = Some False"
    by (simp add: example_defs model_defs)
  have c3: "map_option session_active (after trace ?r) = Some False"
    using inv c2 run by (simp add: after_def)
  have "returned ?r2 = Inr [None, None]"
    by (simp add: example_defs model_defs)
  then obtain s2 where run2: "?r2 = Inr ([None, None], s2)"
    by (cases ?r2) (auto simp: returned_def)
  note inv2 = IsRunning_follows_launch_and_teardown [OF run2]
  have c4: "after IsRunning ?r2 = Some True"
    by (simp add: example_defs model_defs)
  have c5: "map_option session_active (after trace ?r2) = Some True"
    using inv2 c4 run2 by (simp add: after_def)
  have "returned (run example_env (NewAssettoServerProcess example_chans) example_calls)
          = Inr [None, None, None]"
    by (simp add: example_defs model_defs)
  then have run3: "run example_env (NewAssettoServerProcess example_chans) example_calls
          = Inr ([None, None, None], example_session)"
    by (cases "run example_env (NewAssettoServerProcess example_chans) example_calls")
       (auto simp: returned_def example_session_def)
  note inv3 = IsRunning_follows_launch_and_teardown [OF run3]
  have c6: "returned ?st = Inr (Some ErrServerProcessTimeout)"
    by (simp add: example_defs model_defs)
  then obtain s3 where st: "?st = Inr (Some ErrServerProcessTimeout, s3)"
    by (cases ?st) (auto simp: returned_def)
  have c8: "after (teardowns example_session) ?st = Some 1"
    by (simp add: example_defs model_defs teardowns_def)
  with st have "teardowns example_session s3 = 1" by (simp add: after_def)
  with inv3 st have "\<not> IsRunning s3" by simp
  with st have c7: "after IsRunning ?st = Some False" by (simp add: after_def)
  from c1 c2 c3 c4 c5 c6 c7 c8 show ?thesis by blast
qed

text \<open>
  The claim as stated fails, in both directions. The first \<^verbatim>\<open>Start\<close> succeeds; the
  second finds the session running, its implicit \<^verbatim>\<open>Stop\<close> runs into both timeouts
  and the \<^verbatim>\<open>Start\<close> returns the timeout error without launching: the most recent
  \<^verbatim>\<open>Start\<close> has failed and no teardown has run, yet \<^verbatim>\<open>IsRunning()\<close> is true. And
  on a fresh supervisor a \<^verbatim>\<open>Start\<close> with a nil Session Descriptor launches the main
  process and returns nil: the most recent \<^verbatim>\<open>Start\<close> has succeeded and no teardown
  has run, yet \<^verbatim>\<open>IsRunning()\<close> is false.
\<close>

theorem IsRunning_after_failed_Start:
  "returned (run example_env (NewAssettoServerProcess example_chans)
       [CallStart (Some 7) ''127.0.0.1:9000'' 9001 [] 0 (Direct FullTimeout),
        CallStart (Some 8) ''127.0.0.1:9000'' 9001 [] 0 (AfterTimeout FullTimeout)])
     = Inr [None, Some ErrServerProcessTimeout]
   \<and> after IsRunning (run example_env (NewAssettoServerProcess example_chans)
       [CallStart (Some 7) ''127.0.0.1:9000'' 9001 [] 0 (Direct FullTimeout),
        CallStart (Some 8) ''127.0.0.1:9000'' 9001 [] 0 (AfterTimeout FullTimeout)])
     = Some True
   \<and> map_option (list_ex is_teardown)
        (after trace (run example_env (NewAssettoServerProcess example_chans)
       [CallStart (Some 7) ''127.0.0.1:9000'' 9001 [] 0 (Direct FullTimeout),
        CallStart (Some 8) ''127.0.0.1:9000'' 9001 [] 0 (AfterTimeout FullTimeout)]))
     = Some False
   \<and> returned (run example_env (NewAssettoServerProcess example_chans)
       [CallStart None ''127.0.0.1:9000'' 9001 [] 0 (Direct FullTimeout)])
     = Inr [None]
   \<and> after IsRunning (run example_env (NewAssettoServerProcess example_chans)
       [CallStart None ''127.0.0.1:9000'' 9001 [] 0 (Direct FullTimeout)])
     = Some False
   \<and> map_option (list_ex is_launch)
        (after trace (run example_env (NewAssettoServerProcess example_chans)
       [CallStart None ''127.0.0.1:9000'' 9001 [] 0 (Direct FullTimeout)]))
     = Some True
   \<and> map_option (list_ex is_teardown)
        (after trace (run example_env (NewAssettoServerProcess example_chans)
       [CallStart None ''127.0.0.1:9000'' 9001 [] 0 (Direct FullTimeout)]))
     = Some False"
proof -
  have a: "returned (run example_env (NewAssettoServerProcess example_chans)
       [CallStart (Some 7) ''127.0.0.1:9000'' 9001 [] 0 (Direct FullTimeout),
        CallStart (Some 8) ''127.0.0.1:9000'' 9001 [] 0 (AfterTimeout FullTimeout)])
     = Inr [None, Some ErrServerProcessTimeout]
   \<and> after IsRunning (run example_env (NewAssettoServerProcess example_chans)
       [CallStart (Some 7) ''127.0.0.1:9000'' 9001 [] 0 (Direct FullTimeout),
        CallStart (Some 8) ''127.0.0.1:9000'' 9001 [] 0 (AfterTimeout FullTimeout)])
     = Some True
   \<and> map_option (list_ex is_teardown)
        (after trace (run example_env (NewAssettoServerProcess example_chans)
       [CallStart (Some 7) ''127.0.0.1:9000'' 9001 [] 0 (Direct FullTimeout),
        CallStart (Some 8) ''127.0.0.1:9000'' 9001 [] 0 (AfterTimeout FullTimeout)]))
     = Some False"
    by (simp add: example_defs model_defs)
  have b: "returned (run example_env (NewAssettoServerProcess example_chans)
       [CallStart None ''127.0.0.1:9000'' 9001 [] 0 (Direct FullTimeout)])
     = Inr [None]
   \<and> after IsRunning (run example_env (NewAssettoServerProcess example_chans)
       [CallStart None ''127.0.0.1:9000'' 9001 [] 0 (Direct FullTimeout)])
     = Some False
   \<and> map_option (list_ex is_launch)
        (after trace (run example_env (NewAssettoServerProcess example_chans)
       [CallStart None ''127.0.0.1:9000'' 9001 [] 0 (Direct FullTimeout)]))
     = Some True
   \<and> map_option (list_ex is_teardown)
        (after trace (run example_env (NewAssettoServerProcess example_chans)
       [CallStart None ''127.0.0.1:9000'' 9001 [] 0 (Direct FullTimeout)]))
     = Some False"
    by (simp add: example_defs model_defs)
  from a b show ?thesis by blast
qed

lemma example_running: "IsRunning example_session"
  by (simp add: IsRunning_def example_fields)

theorem Start_when_implicit_Stop_fails_witness:
  "IsRunning example_session
   \<and> returned (Start example_env example_session (Some 8) ''10.0.0.5:9600'' 9601
                 ''10.0.0.9:9700'' 9701 (AfterTimeout FullTimeout))
       = Inr (Some ErrServerProcessTimeout)
   \<and> after udpPluginAddress (Start example_env example_session (Some 8) ''10.0.0.5:9600'' 9601
                 ''10.0.0.9:9700'' 9701 (AfterTimeout FullTimeout))
       = Some ''10.0.0.5:9600''
   \<and> map_option (list_ex is_spawn)
        (after (new_events example_session)
           (Start example_env example_session (Some 8) ''10.0.0.5:9600'' 9601
                 ''10.0.0.9:9700'' 9701 (AfterTimeout FullTimeout)))
       = Some False"
proof -
  let ?r = "Start example_env example_session (Some 8) ''10.0.0.5:9600'' 9601
                 ''10.0.0.9:9700'' 9701 (AfterTimeout FullTimeout)"
  have "returned (Stop example_env
          (setAddressing example_session ''10.0.0.5:9600'' 9601 ''10.0.0.9:9700'' 9701)
          (AfterTimeout FullTimeout)) = Inr (Some ErrServerProcessTimeout)"
    by (simp add: example_defs model_defs)
  then obtain s' where st: "Stop example_env
          (setAddressing example_session ''10.0.0.5:9600'' 9601 ''10.0.0.9:9700'' 9701)
          (AfterTimeout FullTimeout) = Inr (Some ErrServerProcessTimeout, s')"
    by (cases "Stop example_env
          (setAddressing example_session ''10.0.0.5:9600'' 9601 ''10.0.0.9:9700'' 9701)
          (AfterTimeout FullTimeout)") (auto simp: returned_def)
  note fact = Start_when_implicit_Stop_fails [OF example_running st, of "Some 8"]
  from fact have c1: "returned ?r = Inr (Some ErrServerProcessTimeout)"
    by (simp add: returned_def)
  from fact have c2: "after udpPluginAddress ?r = Some ''10.0.0.5:9600''"
    by (simp add: after_def)
  from fact have c3: "map_option (list_ex is_spawn) (after (new_events example_session) ?r)
       = Some False"
    by (simp add: after_def)
  from example_running c1 c2 c3 show ?thesis by blast
qed

text \<open>
  The claim as stated fails: the session runs with plugin address
  \<open>127.0.0.1:9000\<close> and local port 9001; a \<^verbatim>\<open>Start\<close> with other addressing whose
  implicit \<^verbatim>\<open>Stop\<close> times out returns the timeout error and leaves the new
  address and port in the fields.
\<close>

theorem Start_overwrites_addressing:
  "IsRunning example_session
   \<and> udpPluginAddress example_session = ''127.0.0.1:9000''
   \<and> udpPluginLocalPort example_session = 9001
   \<and> returned (Start example_env example_session (Some 8) ''10.0.0.5:9600'' 9601
                 ''10.0.0.9:9700'' 9701 (AfterTimeout FullTimeout))
       = Inr (Some ErrServerProcessTimeout)
   \<and> after udpPluginAddress (Start example_env example_session (Some 8) ''10.0.0.5:9600'' 9601
                 ''10.0.0.9:9700'' 9701 (AfterTimeout FullTimeout))
       = Some ''10.0.0.5:9600''
   \<and> after udpPluginLocalPort (Start example_env example_session (Some 8) ''10.0.0.5:9600'' 9601
                 ''10.0.0.9:9700'' 9701 (AfterTimeout FullTimeout))
       = Some 9601"
  by (simp add: example_defs model_defs)


section \<open>The teardown cycle\<close>




section \<open>Auxiliary launches\<close>

lemma startCommand_error_state_free:
  "fst (startCommand env s wd path c) = fst (startCommand env t wd path c)"
  by (simp add: startCommand_def Let_def split: sum.splits prod.splits)

lemma startPlugin_error_state_free:
  "fst (startPlugin env s wd plugin) = fst (startPlugin env t wd plugin)"
  by (simp add: startPlugin_def startCommand_error_state_free [of env s _ _ _ t] split: sum.splits)

lemma startChildProcess_error_state_free:
  "fst (startChildProcess env s wd command) = fst (startChildProcess env t wd command)"
  by (simp add: startChildProcess_def startCommand_error_state_free [of env s _ _ _ t]
      split: sum.splits list.splits)

lemma quiet_subset: "quiet s t \<Longrightarrow> set (trace s) \<subseteq> set (trace t)"
  by (auto simp: quiet_def dest: extends_subset)

lemma startPlugins_logs:
  assumes "plugin \<in> set ps" and "fst (startPlugin env t wd plugin) = Some err"
  shows "logged Error_CouldNotRunExtraCommand (Some err) (startPlugins env s wd ps)"
  using assms(1)
proof (induction ps arbitrary: s)
  case Nil
  then show ?case by simp
next
  case (Cons p ps)
  obtain r s1 where p: "startPlugin env s wd p = (r, s1)" by (cases "startPlugin env s wd p")
  let ?s2 = "case r of Some e \<Rightarrow> logf Error_CouldNotRunExtraCommand (Some e) s1 | None \<Rightarrow> s1"
  have step: "startPlugins env s wd (p # ps) = startPlugins env ?s2 wd ps"
    using p by (cases r) simp_all
  show ?case
  proof (cases "plugin = p")
    case True
    from assms(2) startPlugin_error_state_free [of env t wd plugin s] True p
    have "r = Some err" by simp
    then have "Logged Error_CouldNotRunExtraCommand (Some err) \<in> set (trace ?s2)" by simp
    with quiet_subset [OF startPlugins_quiet, of ?s2 env wd ps] step
    show ?thesis by (auto simp: logged_def)
  next
    case False
    with Cons.prems have "plugin \<in> set ps" by simp
    from Cons.IH [OF this, of ?s2] step show ?thesis by simp
  qed
qed

lemma startCommands_logs:
  assumes "command \<in> set cs" and "fst (startChildProcess env t wd command) = Some err"
  shows "logged Error_CouldNotRunExtraCommand (Some err) (startCommands env s wd cs)"
  using assms(1)
proof (induction cs arbitrary: s)
  case Nil
  then show ?case by simp
next
  case (Cons c cs)
  obtain r s1 where p: "startChildProcess env s wd c = (r, s1)"
    by (cases "startChildProcess env s wd c")
  let ?s2 = "case r of Some e \<Rightarrow> logf Error_CouldNotRunExtraCommand (Some e) s1 | None \<Rightarrow> s1"
  have step: "startCommands env s wd (c # cs) = startCommands env ?s2 wd cs"
    using p by (cases r) simp_all
  show ?case
  proof (cases "command = c")
    case True
    from assms(2) startChildProcess_error_state_free [of env t wd command s] True p
    have "r = Some err" by simp
    then have "Logged Error_CouldNotRunExtraCommand (Some err) \<in> set (trace ?s2)" by simp
    with quiet_subset [OF startCommands_quiet, of ?s2 env wd cs] step
    show ?thesis by (auto simp: logged_def)
  next
    case False
    with Cons.prems have "command \<in> set cs" by simp
    from Cons.IH [OF this, of ?s2] step show ?thesis by simp
  qed
qed

lemma startRunOnStart_keeps_logs:
  "logged l e s \<Longrightarrow> logged l e (startRunOnStart env s wd)"
  using quiet_subset [OF startRunOnStart_quiet, of s env wd] by (auto simp: logged_def)

lemma startRunOnStart_logs:
  assumes "command \<in> set (config_Server_RunOnStart env)"
    and "fst (startChildProcess env t wd command) = Some err"
  shows "logged Error_CouldNotRunExtraCommand (Some err) (startRunOnStart env s wd)"
proof -
  from assms(1) have "length (config_Server_RunOnStart env) > 0" by (cases "config_Server_RunOnStart env") auto
  then have "startRunOnStart env s wd
      = startCommands env (logf Warn_RunOnStartDeprecated None s) wd (config_Server_RunOnStart env)"
    by (simp add: startRunOnStart_def)
  with startCommands_logs [OF assms] show ?thesis by simp
qed

text \<open>What a launch that returns nil has gone through.\<close>

lemma startRaceEvent_nil_tail:
  assumes "startRaceEvent env s event = Inr (None, s')"
  shows "\<exists>wd s2. os_Getwd env = Inr wd
           \<and> s' = startRunOnStart env (startPlugins env s2 wd (config_Server_Plugins env)) wd"
proof -
  from assms obtain wd s4 where wd: "os_Getwd env = Inr wd"
    and aux: "startAuxiliaries env s4 wd = Inr (None, s')"
    unfolding startRaceEvent_def Let_def
    by (auto split: prod.splits option.splits sum.splits)
  from aux obtain s2 where
    "s' = startRunOnStart env (startPlugins env s2 wd (config_Server_Plugins env)) wd"
    unfolding startAuxiliaries_def Let_def
    by (auto split: prod.splits option.splits sum.splits)
  with wd show ?thesis by blast
qed

lemma Start_nil_tail:
  assumes "Start env s event a p f q sched = Inr (None, s')"
  shows "\<exists>wd s2. os_Getwd env = Inr wd
           \<and> s' = startRunOnStart env (startPlugins env s2 wd (config_Server_Plugins env)) wd"
proof -
  from assms have "\<exists>s1. startRaceEvent env s1 event = Inr (None, s')"
    unfolding Start_def loop_start_def
    by (auto split: if_splits sum.splits option.splits)
  then obtain s1 where "startRaceEvent env s1 event = Inr (None, s')" ..
  from startRaceEvent_nil_tail [OF this] show ?thesis .
qed

subsection \<open>The result does not depend on the auxiliaries\<close>

lemma with_auxiliaries_fields [simp]:
  "config_Steam_ExecutablePath (with_auxiliaries env ps cs w) = config_Steam_ExecutablePath env"
  "ServerInstallPath (with_auxiliaries env ps cs w) = ServerInstallPath env"
  "config_Server_Plugins (with_auxiliaries env ps cs w) = ps"
  "config_Server_RunOnStart (with_auxiliaries env ps cs w) = cs"
  "filepath_IsAbs (with_auxiliaries env ps cs w) = filepath_IsAbs env"
  "filepath_Join (with_auxiliaries env ps cs w) = filepath_Join env"
  "filepath_Abs (with_auxiliaries env ps cs w) = filepath_Abs env"
  "filepath_Dir (with_auxiliaries env ps cs w) = filepath_Dir env"
  "net_SplitHostPort (with_auxiliaries env ps cs w) = net_SplitHostPort env"
  "strconv_ParseInt (with_auxiliaries env ps cs w) = strconv_ParseInt env"
  "os_Getwd (with_auxiliaries env ps cs w) = os_Getwd env"
  "udp_NewServerClient (with_auxiliaries env ps cs w) = udp_NewServerClient env"
  "udp_Close_result (with_auxiliaries env ps cs w) = udp_Close_result env"
  "udp_SendMessage (with_auxiliaries env ps cs w) = udp_SendMessage env"
  "store_LoadServerOptions (with_auxiliaries env ps cs w) = store_LoadServerOptions env"
  "store_LoadStrackerOptions (with_auxiliaries env ps cs w) = store_LoadStrackerOptions env"
  "IsStrackerInstalled (with_auxiliaries env ps cs w) = IsStrackerInstalled env"
  "strackerOptions_Write (with_auxiliaries env ps cs w) = strackerOptions_Write env"
  "formValueAsInt (with_auxiliaries env ps cs w) = formValueAsInt env"
  "StrackerExecutablePath (with_auxiliaries env ps cs w) = StrackerExecutablePath env"
  "StrackerFolderPath (with_auxiliaries env ps cs w) = StrackerFolderPath env"
  "strackerConfigIniFilename (with_auxiliaries env ps cs w) = strackerConfigIniFilename env"
  "cmd_Start (with_auxiliaries env ps cs w) = cmd_Start env"
  "kill (with_auxiliaries env ps cs w) = kill env"
  "contentManagerWrapper_Start (with_auxiliaries env ps cs w) = w"
  by (simp_all add: with_auxiliaries_def)

lemmas case_congs =
  option.case_cong sum.case_cong prod.case_cong list.case_cong
  wait_end.case_cong if_cong

lemma killProcesses_with_auxiliaries:
  "killProcesses (with_auxiliaries env ps cs w) xs = killProcesses env xs"
  by (induction xs) (simp_all cong: case_congs)

lemma onStop_with_auxiliaries:
  "onStop (with_auxiliaries env ps cs w) s = onStop env s"
proof -
  have a: "\<And>t. stopUDPListener (with_auxiliaries env ps cs w) t = stopUDPListener env t"
    by (simp add: stopUDPListener_def udp_Close_def cong: case_congs)
  have b: "\<And>t. stopChildProcesses (with_auxiliaries env ps cs w) t = stopChildProcesses env t"
    by (simp add: stopChildProcesses_def killProcesses_with_auxiliaries)
  show ?thesis by (simp add: onStop_def a b cong: case_congs)
qed

lemma loop_run_with_auxiliaries:
  "loop_run (with_auxiliaries env ps cs w) s err = loop_run env s err"
  by (simp add: loop_run_def onStop_with_auxiliaries)

lemma Stop_wait_with_auxiliaries:
  "Stop_wait (with_auxiliaries env ps cs w) s sched = Stop_wait env s sched"
proof -
  have a: "\<And>t. Stop_timeout (with_auxiliaries env ps cs w) t = Stop_timeout env t"
    by (simp add: Stop_timeout_def Let_def cong: case_congs)
  have b: "\<And>t x. Stop_end (with_auxiliaries env ps cs w) t x = Stop_end env t x"
    by (simp add: Stop_end_def loop_run_with_auxiliaries cong: case_congs)
  show ?thesis
    by (induction sched arbitrary: s)
       (simp_all add: a b loop_run_with_auxiliaries cong: case_congs)
qed

lemma Stop_with_auxiliaries:
  "Stop (with_auxiliaries env ps cs w) s sched = Stop env s sched"
  by (simp add: Stop_def Stop_wait_with_auxiliaries cong: case_congs)

lemma startCommand_with_auxiliaries:
  "startCommand (with_auxiliaries env ps cs w) s wd path c = startCommand env s wd path c"
  by (simp add: startCommand_def cong: case_congs)

lemma startPlugin_with_auxiliaries:
  "startPlugin (with_auxiliaries env ps cs w) s wd plugin = startPlugin env s wd plugin"
  by (simp add: startPlugin_def startCommand_with_auxiliaries cong: case_congs)

lemma startStracker_with_auxiliaries:
  "startStracker (with_auxiliaries env ps cs w) s wd so = startStracker env s wd so"
  by (simp add: startStracker_def startPlugin_with_auxiliaries Let_def
      cong: case_congs)

lemma startUDPListener_with_auxiliaries:
  "startUDPListener (with_auxiliaries env ps cs w) s = startUDPListener env s"
  by (simp add: startUDPListener_def cong: case_congs)

lemma startAuxiliaries_with_auxiliaries:
  "returned (startAuxiliaries (with_auxiliaries env ps cs w) s wd)
     = returned (startAuxiliaries env s wd)"
proof (cases "store_LoadServerOptions env")
  case (Inl e)
  then show ?thesis by (simp add: startAuxiliaries_def returned_def with_auxiliaries_def)
next
  case (Inr so)
  let ?s1 = "if EnableContentManagerWrapper so = 1 \<and> ContentManagerWrapperPort so > 0
             then emit (GoWrapperStart (ContentManagerWrapperPort so)) s else s"
  have lo: "store_LoadServerOptions (with_auxiliaries env ps cs w) = Inr so"
    using Inr by simp
  show ?thesis
  proof (cases "startStracker env ?s1 wd so")
    case (Inl f)
    with Inr lo show ?thesis
      by (simp add: startAuxiliaries_def returned_def Let_def startStracker_with_auxiliaries)
  next
    case st: (Inr x)
    obtain r s2 where x: "x = (r, s2)" by (cases x)
    with Inr lo st show ?thesis
      by (cases r)
         (simp_all add: startAuxiliaries_def returned_def Let_def startStracker_with_auxiliaries)
  qed
qed

lemma startRaceEvent_with_auxiliaries:
  "returned (startRaceEvent (with_auxiliaries env ps cs w) s event)
     = returned (startRaceEvent env s event)"
  unfolding startRaceEvent_def Let_def
  by (simp add: startUDPListener_with_auxiliaries returned_def
      startAuxiliaries_with_auxiliaries [unfolded returned_def]
      split: prod.splits option.splits sum.splits)

lemma Start_with_auxiliaries:
  "returned (Start (with_auxiliaries env ps cs w) s event a p f q sched)
     = returned (Start env s event a p f q sched)"
proof -
  let ?s0 = "setAddressing s a p f q"
  show ?thesis
  proof (cases "IsRunning ?s0")
    case False
    then show ?thesis
      by (simp add: Start_def loop_start_def startRaceEvent_with_auxiliaries)
  next
    case True
    show ?thesis
    proof (cases "Stop env ?s0 sched")
      case (Inl f)
      with True show ?thesis
        by (simp add: Start_def loop_start_def Stop_with_auxiliaries returned_def)
    next
      case (Inr x)
      obtain r s1 where x: "x = (r, s1)" by (cases x)
      show ?thesis
      proof (cases r)
        case (Some err)
        with True Inr x show ?thesis
          by (simp add: Start_def loop_start_def Stop_with_auxiliaries returned_def)
      next
        case None
        with True Inr x show ?thesis
          by (simp add: Start_def loop_start_def Stop_with_auxiliaries
              startRaceEvent_with_auxiliaries)
      qed
    qed
  qed
qed


text \<open>
  The configured plugins, the legacy commands and the companion wrapper are
  best-effort: what \<^verbatim>\<open>Start\<close> returns is the same whatever plugins and legacy
  commands are configured and whatever the wrapper's start does, and when
  \<^verbatim>\<open>Start\<close> returns nil, every configured plugin and every legacy command whose
  launch fails has its error in the log.
\<close>

lemma plugins_and_commands_do_not_fail_Start:
  "returned (Start (with_auxiliaries env plugins commands wrapper) s event a p f q sched)
     = returned (Start env s event a p f q sched)
   \<and> (\<forall>s' wd. Start env s event a p f q sched = Inr (None, s') \<and> os_Getwd env = Inr wd \<longrightarrow>
         (\<forall>plugin \<in> set (config_Server_Plugins env). \<forall>err.
            fst (startPlugin env s wd plugin) = Some err
              \<longrightarrow> logged Error_CouldNotRunExtraCommand (Some err) s')
         \<and> (\<forall>command \<in> set (config_Server_RunOnStart env). \<forall>err.
            fst (startChildProcess env s wd command) = Some err
              \<longrightarrow> logged Error_CouldNotRunExtraCommand (Some err) s'))"
proof (intro conjI allI impI ballI)
  show "returned (Start (with_auxiliaries env plugins commands wrapper) s event a p f q sched)
     = returned (Start env s event a p f q sched)"
    by (rule Start_with_auxiliaries)
next
  fix s' wd plugin err
  assume r: "Start env s event a p f q sched = Inr (None, s') \<and> os_Getwd env = Inr wd"
    and pl: "plugin \<in> set (config_Server_Plugins env)"
    and e: "fst (startPlugin env s wd plugin) = Some err"
  from r Start_nil_tail [of env s event a p f q sched s'] obtain s2 where
    s': "s' = startRunOnStart env (startPlugins env s2 wd (config_Server_Plugins env)) wd"
    by auto
  from startPlugins_logs [OF pl e]
  have "logged Error_CouldNotRunExtraCommand (Some err)
          (startPlugins env s2 wd (config_Server_Plugins env))" .
  then show "logged Error_CouldNotRunExtraCommand (Some err) s'"
    unfolding s' by (rule startRunOnStart_keeps_logs)
next
  fix s' wd command err
  assume r: "Start env s event a p f q sched = Inr (None, s') \<and> os_Getwd env = Inr wd"
    and c: "command \<in> set (config_Server_RunOnStart env)"
    and e: "fst (startChildProcess env s wd command) = Some err"
  from r Start_nil_tail [of env s event a p f q sched s'] obtain s2 where
    s': "s' = startRunOnStart env (startPlugins env s2 wd (config_Server_Plugins env)) wd"
    by auto
  from startRunOnStart_logs [OF c e] show "logged Error_CouldNotRunExtraCommand (Some err) s'"
    unfolding s' .
qed

text \<open>
  C2: the claim does not hold of the code for the sTracker plugin. With sTracker
  enabled and installed and its configuration file not writable,
  \<^verbatim>\<open>strackerOptions.Write()\<close> fails and \<^verbatim>\<open>startRaceEvent\<close> returns that error (line
  240); with the file written and the sTracker executable failing to start, it
  returns the error of \<^verbatim>\<open>startPlugin\<close> (line 252). In both cases \<^verbatim>\<open>Start\<close> returns
  the error although the main process has been launched and \<^verbatim>\<open>IsRunning()\<close> is
  true, no log line carries the error, and the configured plugins and legacy
  commands are never tried (no child is tracked). In the same installation with
  sTracker disabled, the configured plugin fails to start with the same kind of
  error from the same \<^verbatim>\<open>startPlugin\<close>: the loop over the plugins logs it and
  \<^verbatim>\<open>Start\<close> returns nil.
\<close>

theorem stracker_failure_fails_Start:
  "strackerOptions_Write example_env_stracker
       \<lparr>EnableStracker = True, ACPlugin_SendPort = 9001, ACPlugin_ReceivePort = 9000,
        InstanceConfiguration_ListeningPort = 50042\<rparr> = Some ''permission denied''
   \<and> returned (Start example_env_stracker (NewAssettoServerProcess example_chans) (Some 7)
                 ''127.0.0.1:9000'' 9001 [] 0 (Direct FullTimeout))
       = Inr (Some (External ''permission denied''))
   \<and> after (error_logged (External ''permission denied''))
        (Start example_env_stracker (NewAssettoServerProcess example_chans) (Some 7)
                 ''127.0.0.1:9000'' 9001 [] 0 (Direct FullTimeout)) = Some False
   \<and> after IsRunning
        (Start example_env_stracker (NewAssettoServerProcess example_chans) (Some 7)
                 ''127.0.0.1:9000'' 9001 [] 0 (Direct FullTimeout)) = Some True
   \<and> after extraProcesses
        (Start example_env_stracker (NewAssettoServerProcess example_chans) (Some 7)
                 ''127.0.0.1:9000'' 9001 [] 0 (Direct FullTimeout)) = Some []
   \<and> returned (Start example_env_stracker_launch (NewAssettoServerProcess example_chans) (Some 7)
                 ''127.0.0.1:9000'' 9001 [] 0 (Direct FullTimeout))
       = Inr (Some (External ''no such file or directory''))
   \<and> after (error_logged (External ''no such file or directory''))
        (Start example_env_stracker_launch (NewAssettoServerProcess example_chans) (Some 7)
                 ''127.0.0.1:9000'' 9001 [] 0 (Direct FullTimeout)) = Some False
   \<and> after IsRunning
        (Start example_env_stracker_launch (NewAssettoServerProcess example_chans) (Some 7)
                 ''127.0.0.1:9000'' 9001 [] 0 (Direct FullTimeout)) = Some True
   \<and> after extraProcesses
        (Start example_env_stracker_launch (NewAssettoServerProcess example_chans) (Some 7)
                 ''127.0.0.1:9000'' 9001 [] 0 (Direct FullTimeout)) = Some []
   \<and> returned (Start example_env (NewAssettoServerProcess example_chans) (Some 7)
                 ''127.0.0.1:9000'' 9001 [] 0 (Direct FullTimeout)) = Inr None
   \<and> after (logged Error_CouldNotRunExtraCommand (Some (External ''exec format error'')))
        (Start example_env (NewAssettoServerProcess example_chans) (Some 7)
                 ''127.0.0.1:9000'' 9001 [] 0 (Direct FullTimeout)) = Some True"
proof -
  let ?a = "Start example_env_stracker (NewAssettoServerProcess example_chans) (Some 7)
                 ''127.0.0.1:9000'' 9001 [] 0 (Direct FullTimeout)"
  let ?b = "Start example_env_stracker_launch (NewAssettoServerProcess example_chans) (Some 7)
                 ''127.0.0.1:9000'' 9001 [] 0 (Direct FullTimeout)"
  let ?c = "Start example_env (NewAssettoServerProcess example_chans) (Some 7)
                 ''127.0.0.1:9000'' 9001 [] 0 (Direct FullTimeout)"
  have a: "strackerOptions_Write example_env_stracker
       \<lparr>EnableStracker = True, ACPlugin_SendPort = 9001, ACPlugin_ReceivePort = 9000,
        InstanceConfiguration_ListeningPort = 50042\<rparr> = Some ''permission denied''"
    "returned ?a = Inr (Some (External ''permission denied''))"
    "after (error_logged (External ''permission denied'')) ?a = Some False"
    "after IsRunning ?a = Some True"
    "after extraProcesses ?a = Some []"
    by (simp_all add: example_env_stracker_def example_defs model_defs error_logged_def)
  have b: "returned ?b = Inr (Some (External ''no such file or directory''))"
    "after (error_logged (External ''no such file or directory'')) ?b = Some False"
    "after IsRunning ?b = Some True"
    "after extraProcesses ?b = Some []"
    by (simp_all add: example_env_stracker_launch_def example_defs model_defs error_logged_def)
  have c: "returned ?c = Inr None"
    "after (logged Error_CouldNotRunExtraCommand (Some (External ''exec format error''))) ?c
       = Some True"
    by (simp_all add: example_defs model_defs logged_def)
  from a b c show ?thesis by blast
qed

section \<open>An error after the launch\<close>

text \<open>
  C3: the claim does not hold of the code. \<^verbatim>\<open>startRaceEvent\<close> sets the Session
  Descriptor and hands the main command to its goroutine (lines 210 to 214) and
  only then loads the server options; when the store fails there, it returns the
  error. \<^verbatim>\<open>Start\<close> returns a non-nil error, \<^verbatim>\<open>IsRunning()\<close> is true and the main
  process has been launched.
\<close>

theorem Start_returns_error_after_launch:
  "returned (Start example_env_store_fails (NewAssettoServerProcess example_chans) (Some 7)
                 ''127.0.0.1:9000'' 9001 [] 0 (Direct FullTimeout))
       = Inr (Some (External ''store failure''))
   \<and> after IsRunning (Start example_env_store_fails (NewAssettoServerProcess example_chans)
                 (Some 7) ''127.0.0.1:9000'' 9001 [] 0 (Direct FullTimeout)) = Some True
   \<and> map_option (list_ex is_launch)
        (after trace (Start example_env_store_fails (NewAssettoServerProcess example_chans)
                 (Some 7) ''127.0.0.1:9000'' 9001 [] 0 (Direct FullTimeout))) = Some True"
  by (simp add: example_env_store_fails_def example_defs model_defs)

end
